theory Spec2Isabelle
  imports Complex_Main
begin

section \<open>Tabular Q-learning (q\_learning.py): data model\<close>

text \<open>
  The arrays of the program hold float64 numbers; they are modelled as lists of reals.
  The arithmetic of the policy generator (lines 25 to 28) is float64 arithmetic: every
  operation is rounded to the nearest float64 by \<open>f64\<close> below. The arithmetic of the
  update (lines 81 and 82) and of the statistics (line 78) is written as the source
  writes it, over the reals. Console output (the \<^verbatim>\<open>print\<close> calls and the episode
  counter) is not modelled.
\<close>

text \<open>
  Exceptions are values. \<open>EnvError x\<close> is an exception \<open>x\<close> raised inside the
  environment's \<^verbatim>\<open>reset\<close> or \<^verbatim>\<open>step\<close>; the others are the Python and numpy exceptions
  the program's own lines can raise.
\<close>

datatype 'x error = EnvError 'x | ValueError | IndexError | ZeroDivisionError

text \<open>
  \<^verbatim>\<open>Q = defaultdict(lambda: np.zeros(env.nA))\<close>: a dictionary from states to arrays with
  a default factory. \<open>factory_len\<close> is the length of the zero array the factory makes,
  \<open>items\<close> are the keys actually stored.
\<close>

record 's defaultdict =
  factory_len :: nat
  items :: "'s \<rightharpoonup> real list"

text \<open>\<^verbatim>\<open>EpisodeStats = namedtuple("Stats", ["episode_lengths", "episode_rewards"])\<close>\<close>

record EpisodeStats =
  episode_lengths :: "real list"
  episode_rewards :: "real list"

text \<open>
  The environment collaborator: its action count and its two operations, as functions of
  the environment's internal state \<open>'e\<close>. Either operation may raise (\<open>Inl\<close>). The fourth
  component of the tuple returned by \<^verbatim>\<open>step\<close> is never read by the program and is left
  out.
\<close>

record ('e, 's, 'x) env =
  env_nA :: nat
  env_reset :: "'e \<Rightarrow> 'x + 's \<times> 'e"
  env_step :: "'e \<Rightarrow> nat \<Rightarrow> 'x + ('s \<times> real \<times> bool) \<times> 'e"

text \<open>
  What the learning loop owns while it runs: the Q table, the statistics, the state of
  the environment and of numpy's global random generator. \<open>history\<close> is a ghost
  field, not a variable of the program: the transitions
  \<open>(state, action, reward, next_state, done)\<close> observed so far, in order. Nothing
  reads it; the theorems use it to speak about what a run has observed.
\<close>

record ('s, 'e, 'g) run_state =
  Qtab :: "'s defaultdict"
  stats :: EpisodeStats
  env_state :: 'e
  rng_state :: 'g
  history :: "('s \<times> nat \<times> real \<times> 's \<times> bool) list"

section \<open>Float64 rounding\<close>

text \<open>
  Rounding a real to the nearest integer, ties to the even one (the rounding of IEEE 754
  binary64 arithmetic, which Python's floats and numpy's float64 arrays use).
\<close>

definition round_half_even :: "real \<Rightarrow> int" where
  "round_half_even y =
     (if y - of_int \<lfloor>y\<rfloor> < 1 / 2 then \<lfloor>y\<rfloor>
      else if 1 / 2 < y - of_int \<lfloor>y\<rfloor> then \<lfloor>y\<rfloor> + 1
      else if even \<lfloor>y\<rfloor> then \<lfloor>y\<rfloor>
      else \<lfloor>y\<rfloor> + 1)"

text \<open>
  The exponent of the unit in the last place of the float64 format at \<open>x\<close>: 53
  significant bits, and no exponent below \<open>-1074\<close> (the subnormal numbers).
\<close>

definition ulp_exponent :: "real \<Rightarrow> int" where
  "ulp_exponent x = max (\<lfloor>log 2 \<bar>x\<bar>\<rfloor> - 52) (- 1074)"

text \<open>
  The float64 nearest to a real \<open>x\<close>: the result of a float64 operation whose exact
  result is \<open>x\<close>. Overflow to infinity (magnitudes from \<open>2 ^ 1024\<close> on) is not
  modelled; the values of the policy generator stay far below it.
\<close>

definition f64 :: "real \<Rightarrow> real" where
  "f64 x =
     (if x = 0 then 0
      else of_int (round_half_even (x / 2 powr of_int (ulp_exponent x)))
             * 2 powr of_int (ulp_exponent x))"

section \<open>The numpy operations the program calls\<close>

text \<open>
  \<^verbatim>\<open>np.argmax\<close> of a one-dimensional array: the index of the first maximal element,
  found by one left-to-right scan that moves only on a strictly greater element; an
  empty array raises \<^verbatim>\<open>ValueError\<close>.
\<close>

fun argmax_scan :: "nat \<Rightarrow> real \<Rightarrow> nat \<Rightarrow> real list \<Rightarrow> nat" where
  "argmax_scan b m i [] = b"
| "argmax_scan b m i (x # xs) =
     (if m < x then argmax_scan i x (Suc i) xs else argmax_scan b m (Suc i) xs)"

definition argmax :: "real list \<Rightarrow> 'x error + nat" where
  "argmax v = (case v of [] \<Rightarrow> Inl ValueError | x # xs \<Rightarrow> Inr (argmax_scan 0 x 1 xs))"

text \<open>A new, empty defaultdict whose factory makes \<open>n\<close> zeros.\<close>

definition new_defaultdict :: "nat \<Rightarrow> 's defaultdict" where
  "new_defaultdict n = \<lparr>factory_len = n, items = Map.empty\<rparr>"

text \<open>
  \<^verbatim>\<open>Q[s]\<close> on the defaultdict: a stored key returns its array; a missing key calls the
  factory, stores the new zero array under the key and returns it. It never raises.
\<close>

definition getitem :: "'s defaultdict \<Rightarrow> 's \<Rightarrow> real list \<times> 's defaultdict" where
  "getitem Q s =
     (case items Q s of
        Some v \<Rightarrow> (v, Q)
      | None \<Rightarrow> (replicate (factory_len Q) 0,
                 Q\<lparr>items := (items Q)(s \<mapsto> replicate (factory_len Q) 0)\<rparr>))"

text \<open>The array that \<^verbatim>\<open>Q[s]\<close> evaluates to (the effect on the dictionary dropped).\<close>

definition Qval :: "'s defaultdict \<Rightarrow> 's \<Rightarrow> real list" where
  "Qval Q s = fst (getitem Q s)"

text \<open>Writing the array stored under a key (the in-place store into \<^verbatim>\<open>Q[s]\<close>).\<close>

definition setitem :: "'s defaultdict \<Rightarrow> 's \<Rightarrow> real list \<Rightarrow> 's defaultdict" where
  "setitem Q s v = Q\<lparr>items := (items Q)(s \<mapsto> v)\<rparr>"

text \<open>
  \<^verbatim>\<open>np.random.choice(a, p=p)\<close> with an integer \<open>a\<close> (numpy's legacy generator, a library
  outside this repository, modelled from its documented behaviour). It raises
  \<^verbatim>\<open>ValueError\<close> when \<open>a\<close> is not positive, when \<open>p\<close> does not have \<open>a\<close> entries, when an
  entry of \<open>p\<close> is negative or when the sum of \<open>p\<close> differs from 1 by more than the
  tolerance \<open>sqrt(eps) = 2 ^ -26\<close>. Otherwise it draws one uniform
  sample \<open>u\<close> in \<open>[0, 1)\<close> (a 53-bit integer over \<open>2 ^ 53\<close>) and returns the position of \<open>u\<close>
  in the normalised cumulative sums of \<open>p\<close> (\<^verbatim>\<open>searchsorted(..., side='right')\<close>).
  The generator is a parameter \<open>gen\<close>: one raw draw from a generator state.
\<close>

definition random_sample :: "('g \<Rightarrow> nat \<times> 'g) \<Rightarrow> 'g \<Rightarrow> real \<times> 'g" where
  "random_sample gen g = (case gen g of (k, g') \<Rightarrow> (real (k mod 2 ^ 53) / 2 ^ 53, g'))"

fun cumsum :: "real \<Rightarrow> real list \<Rightarrow> real list" where
  "cumsum acc [] = []"
| "cumsum acc (x # xs) = (acc + x) # cumsum (acc + x) xs"

definition searchsorted_right :: "real list \<Rightarrow> real \<Rightarrow> nat" where
  "searchsorted_right cdf u = length (takeWhile (\<lambda>c. c \<le> u) cdf)"

definition random_choice ::
  "('g \<Rightarrow> nat \<times> 'g) \<Rightarrow> nat \<Rightarrow> real list \<Rightarrow> 'g \<Rightarrow> 'x error + nat \<times> 'g" where
  "random_choice gen a p g =
     (if a = 0 then Inl ValueError
      else if length p \<noteq> a then Inl ValueError
      else if list_ex (\<lambda>x. x < 0) p then Inl ValueError
      else if 1 / 2 ^ 26 < \<bar>sum_list p - 1\<bar> then Inl ValueError
      else (case random_sample gen g of
              (u, g') \<Rightarrow>
                Inr (searchsorted_right (map (\<lambda>c. c / last (cumsum 0 p)) (cumsum 0 p)) u, g')))"

section \<open>The policy generator\<close>

text \<open>
  Lines 25 and 26: \<^verbatim>\<open>policy = np.ones(nA)\<close> and \<^verbatim>\<open>policy *= epsilon / nA\<close>. The
  quotient is computed once and rounded; every entry is the rounded product of 1 and
  the quotient. (The integer \<open>nA\<close> converts to float64 exactly up to \<open>2 ^ 53\<close>.)
\<close>

definition scaled_ones :: "real \<Rightarrow> nat \<Rightarrow> real list" where
  "scaled_ones epsilon nA = map (\<lambda>p. f64 (p * f64 (epsilon / real nA))) (replicate nA 1)"

text \<open>
  \<^verbatim>\<open>policy_fn\<close> (lines 24 to 29), the closure returned by
  \<^verbatim>\<open>make_epsilon_greedy_policy(Q, epsilon, nA)\<close>. The closure holds \<open>Q\<close> by reference, so
  the model takes the current dictionary as an argument and returns it as the call
  leaves it. \<^verbatim>\<open>epsilon / nA\<close> raises \<^verbatim>\<open>ZeroDivisionError\<close> for \<open>nA = 0\<close>;
  \<^verbatim>\<open>policy[best_action]\<close> raises \<^verbatim>\<open>IndexError\<close> out of range. Line 28 rounds
  \<open>1 - epsilon\<close> and then the sum.
\<close>

definition policy_fn ::
  "'s defaultdict \<Rightarrow> real \<Rightarrow> nat \<Rightarrow> 's \<Rightarrow> 'x error + real list \<times> 's defaultdict" where
  "policy_fn Q epsilon nA observation =
     (if nA = 0 then Inl ZeroDivisionError
      else
        (case getitem Q observation of
           (v, Q') \<Rightarrow>
             (case argmax v of
                Inl e \<Rightarrow> Inl e
              | Inr best_action \<Rightarrow>
                  if best_action < nA
                  then Inr ((scaled_ones epsilon nA)
                              [best_action :=
                                 f64 (scaled_ones epsilon nA ! best_action + f64 (1 - epsilon))],
                            Q')
                  else Inl IndexError)))"

definition make_epsilon_greedy_policy ::
  "real \<Rightarrow> nat \<Rightarrow> 's defaultdict \<Rightarrow> 's \<Rightarrow> 'x error + real list \<times> 's defaultdict" where
  "make_epsilon_greedy_policy epsilon nA = (\<lambda>Q observation. policy_fn Q epsilon nA observation)"

section \<open>The learning loop\<close>

text \<open>
  Lines 71 to 73: query the policy at the current state and sample the action. The
  sample space passed to \<^verbatim>\<open>np.random.choice\<close> is the literal 4 of line 73.
\<close>

definition select_action ::
  "('g \<Rightarrow> nat \<times> 'g) \<Rightarrow> real \<Rightarrow> nat \<Rightarrow> 's defaultdict \<Rightarrow> 's \<Rightarrow> 'g
     \<Rightarrow> 'x error + nat \<times> 's defaultdict \<times> 'g" where
  "select_action gen epsilon nA Q state g =
     (case make_epsilon_greedy_policy epsilon nA Q state of
        Inl e \<Rightarrow> Inl e
      | Inr (action_probs, Q') \<Rightarrow>
          (case random_choice gen 4 action_probs g of
             Inl e \<Rightarrow> Inl e
           | Inr (action, g') \<Rightarrow> Inr (action, Q', g')))"

text \<open>Line 76: \<^verbatim>\<open>best_next_action = np.argmax(Q[next_state])\<close>.\<close>

definition best_next :: "'s defaultdict \<Rightarrow> 's \<Rightarrow> 'x error + nat \<times> 's defaultdict" where
  "best_next Q next_state =
     (case getitem Q next_state of
        (v, Q') \<Rightarrow> (case argmax v of Inl e \<Rightarrow> Inl e | Inr b \<Rightarrow> Inr (b, Q')))"

text \<open>
  Lines 78 and 79: \<^verbatim>\<open>stats.episode_rewards[i_episode] += reward\<close> and
  \<^verbatim>\<open>stats.episode_lengths[i_episode] = i\<close>, where \<open>i\<close> is the counter of
  \<^verbatim>\<open>itertools.count()\<close>. An index past the end of the array raises \<^verbatim>\<open>IndexError\<close>.
\<close>

definition record_stats :: "EpisodeStats \<Rightarrow> nat \<Rightarrow> nat \<Rightarrow> real \<Rightarrow> 'x error + EpisodeStats" where
  "record_stats s i_episode i reward =
     (if i_episode < length (episode_rewards s)
      then (if i_episode < length (episode_lengths s)
            then Inr \<lparr>episode_lengths = (episode_lengths s)[i_episode := real i],
                      episode_rewards =
                        (episode_rewards s)[i_episode := episode_rewards s ! i_episode + reward]\<rparr>
            else Inl IndexError)
      else Inl IndexError)"

text \<open>
  Lines 81 and 82, in Python's evaluation order: the target array \<^verbatim>\<open>Q[state]\<close> and its
  old element are read, then the right-hand side reads \<^verbatim>\<open>Q[next_state][best_next_action]\<close>
  (\<^verbatim>\<open>np.max\<close> of that scalar is the scalar) and \<^verbatim>\<open>Q[state][action]\<close> again, then the sum is
  stored into the target array.
\<close>

definition td_update ::
  "'s defaultdict \<Rightarrow> real \<Rightarrow> real \<Rightarrow> 's \<Rightarrow> nat \<Rightarrow> real \<Rightarrow> 's \<Rightarrow> nat \<Rightarrow> 'x error + 's defaultdict" where
  "td_update Q discount_factor alpha state action reward next_state best_next_action =
     (case getitem Q state of
        (target, Q1) \<Rightarrow>
          if action < length target
          then (case getitem Q1 next_state of
                  (nv, Q2) \<Rightarrow>
                    if best_next_action < length nv
                    then (case getitem Q2 state of
                            (cur, Q3) \<Rightarrow>
                              if action < length cur
                              then Inr (setitem Q3 state
                                     (target[action := target ! action
                                        + alpha * (reward + discount_factor * (nv ! best_next_action)
                                                   - cur ! action)]))
                              else Inl IndexError)
                    else Inl IndexError)
          else Inl IndexError)"

text \<open>
  One pass through the body of the inner loop (lines 71 to 87) for episode \<open>i_episode\<close>
  at step counter \<open>i\<close>. It returns the next state, the \<^verbatim>\<open>done\<close> flag and the updated run
  state, or the exception that ended the run.
\<close>

definition q_step ::
  "('e, 's, 'x) env \<Rightarrow> ('g \<Rightarrow> nat \<times> 'g) \<Rightarrow> real \<Rightarrow> real \<Rightarrow> real \<Rightarrow> nat \<Rightarrow> nat \<Rightarrow> 's
     \<Rightarrow> ('s, 'e, 'g) run_state \<Rightarrow> 'x error + 's \<times> bool \<times> ('s, 'e, 'g) run_state" where
  "q_step env gen discount_factor alpha epsilon i_episode i state st =
     (case select_action gen epsilon (env_nA env) (Qtab st) state (rng_state st) of
        Inl e \<Rightarrow> Inl e
      | Inr (action, Q1, g1) \<Rightarrow>
          (case env_step env (env_state st) action of
             Inl x \<Rightarrow> Inl (EnvError x)
           | Inr ((next_state, reward, done), e1) \<Rightarrow>
               (case best_next Q1 next_state of
                  Inl e \<Rightarrow> Inl e
                | Inr (best_next_action, Q2) \<Rightarrow>
                    (case record_stats (stats st) i_episode i reward of
                       Inl e \<Rightarrow> Inl e
                     | Inr stats1 \<Rightarrow>
                         (case td_update Q2 discount_factor alpha state action reward
                                 next_state best_next_action of
                            Inl e \<Rightarrow> Inl e
                          | Inr Q3 \<Rightarrow>
                              Inr (next_state, done,
                                   \<lparr>Qtab = Q3, stats = stats1, env_state = e1, rng_state = g1,
                                    history = history st
                                      @ [(state, action, reward, next_state, done)]\<rparr>))))))"

text \<open>
  The inner loop \<^verbatim>\<open>for i in itertools.count()\<close> has no bound: it ends when the
  environment signals \<^verbatim>\<open>done\<close> or something raises. The model gives it fuel; \<open>None\<close> means
  the fuel ran out before the episode ended.
\<close>

fun episode_loop ::
  "nat \<Rightarrow> ('e, 's, 'x) env \<Rightarrow> ('g \<Rightarrow> nat \<times> 'g) \<Rightarrow> real \<Rightarrow> real \<Rightarrow> real \<Rightarrow> nat \<Rightarrow> nat \<Rightarrow> 's
     \<Rightarrow> ('s, 'e, 'g) run_state \<Rightarrow> ('x error + ('s, 'e, 'g) run_state) option" where
  "episode_loop 0 env gen discount_factor alpha epsilon i_episode i state st = None"
| "episode_loop (Suc fuel) env gen discount_factor alpha epsilon i_episode i state st =
     (case q_step env gen discount_factor alpha epsilon i_episode i state st of
        Inl e \<Rightarrow> Some (Inl e)
      | Inr (next_state, done, st') \<Rightarrow>
          if done then Some (Inr st')
          else episode_loop fuel env gen discount_factor alpha epsilon i_episode (Suc i)
                 next_state st')"

text \<open>One episode (lines 68 to 87): reset the environment, then run the inner loop.\<close>

definition episode ::
  "nat \<Rightarrow> ('e, 's, 'x) env \<Rightarrow> ('g \<Rightarrow> nat \<times> 'g) \<Rightarrow> real \<Rightarrow> real \<Rightarrow> real \<Rightarrow> nat
     \<Rightarrow> ('s, 'e, 'g) run_state \<Rightarrow> ('x error + ('s, 'e, 'g) run_state) option" where
  "episode fuel env gen discount_factor alpha epsilon i_episode st =
     (case env_reset env (env_state st) of
        Inl x \<Rightarrow> Some (Inl (EnvError x))
      | Inr (state, e1) \<Rightarrow>
          episode_loop fuel env gen discount_factor alpha epsilon i_episode 0 state
            (st\<lparr>env_state := e1\<rparr>))"

text \<open>
  The outer loop \<^verbatim>\<open>for i_episode in range(num_episodes)\<close>, over the list of episode
  numbers still to run. The first exception ends the run.
\<close>

fun run_episodes ::
  "nat \<Rightarrow> ('e, 's, 'x) env \<Rightarrow> ('g \<Rightarrow> nat \<times> 'g) \<Rightarrow> real \<Rightarrow> real \<Rightarrow> real \<Rightarrow> nat list
     \<Rightarrow> ('s, 'e, 'g) run_state \<Rightarrow> ('x error + ('s, 'e, 'g) run_state) option" where
  "run_episodes fuel env gen discount_factor alpha epsilon [] st = Some (Inr st)"
| "run_episodes fuel env gen discount_factor alpha epsilon (i_episode # rest) st =
     (case episode fuel env gen discount_factor alpha epsilon i_episode st of
        None \<Rightarrow> None
      | Some (Inl e) \<Rightarrow> Some (Inl e)
      | Some (Inr st') \<Rightarrow> run_episodes fuel env gen discount_factor alpha epsilon rest st')"

text \<open>
  Lines 54 to 62: the empty Q table whose factory makes \<open>env.nA\<close> zeros, and the two
  statistics arrays of \<open>num_episodes\<close> zeros.
\<close>

definition initial_state ::
  "('e, 's, 'x) env \<Rightarrow> nat \<Rightarrow> 'e \<Rightarrow> 'g \<Rightarrow> ('s, 'e, 'g) run_state" where
  "initial_state env n e0 g0 =
     \<lparr>Qtab = new_defaultdict (env_nA env),
      stats = \<lparr>episode_lengths = replicate n 0, episode_rewards = replicate n 0\<rparr>,
      env_state = e0, rng_state = g0, history = []\<rparr>"

text \<open>
  \<^verbatim>\<open>q_learning(env, num_episodes, discount_factor, alpha, epsilon)\<close>, started with the
  environment in state \<open>e0\<close> and the random generator in state \<open>g0\<close> (the seed), each
  episode given \<open>fuel\<close> steps. \<^verbatim>\<open>np.zeros(num_episodes)\<close> raises \<^verbatim>\<open>ValueError\<close> for a
  negative count. \<open>q_learning_run\<close> returns the whole final run state;
  \<open>q_learning\<close> returns what the program returns, the pair \<open>(Q, stats)\<close>.
\<close>

definition q_learning_run ::
  "nat \<Rightarrow> ('e, 's, 'x) env \<Rightarrow> ('g \<Rightarrow> nat \<times> 'g) \<Rightarrow> int \<Rightarrow> real \<Rightarrow> real \<Rightarrow> real \<Rightarrow> 'e \<Rightarrow> 'g
     \<Rightarrow> ('x error + ('s, 'e, 'g) run_state) option" where
  "q_learning_run fuel env gen num_episodes discount_factor alpha epsilon e0 g0 =
     (if num_episodes < 0 then Some (Inl ValueError)
      else run_episodes fuel env gen discount_factor alpha epsilon [0 ..< nat num_episodes]
             (initial_state env (nat num_episodes) e0 g0))"

definition q_learning ::
  "nat \<Rightarrow> ('e, 's, 'x) env \<Rightarrow> ('g \<Rightarrow> nat \<times> 'g) \<Rightarrow> int \<Rightarrow> real \<Rightarrow> real \<Rightarrow> real \<Rightarrow> 'e \<Rightarrow> 'g
     \<Rightarrow> ('x error + 's defaultdict \<times> EpisodeStats) option" where
  "q_learning fuel env gen num_episodes discount_factor alpha epsilon e0 g0 =
     map_option (map_sum id (\<lambda>st. (Qtab st, stats st)))
       (q_learning_run fuel env gen num_episodes discount_factor alpha epsilon e0 g0)"

section \<open>Observations of a run\<close>

text \<open>The states a run has visited: those that occur in an observed transition.\<close>

definition visited :: "('s \<times> nat \<times> real \<times> 's \<times> bool) list \<Rightarrow> 's set" where
  "visited h = set (map fst h) \<union> set (map (\<lambda>t. fst (snd (snd (snd t)))) h)"

text \<open>The rewards a run has observed, in order.\<close>

definition rewards_of :: "('s \<times> nat \<times> real \<times> 's \<times> bool) list \<Rightarrow> real list" where
  "rewards_of h = map (\<lambda>t. fst (snd (snd t))) h"

text \<open>
  One pass of the inner loop of episode \<open>i_episode\<close> that neither raises nor ends the
  episode: it takes the loop from counter \<open>i\<close>, state \<open>s\<close> and run state \<open>st\<close> to the
  next counter, the next state and the updated run state.
\<close>

definition continues ::
  "('e, 's, 'x) env \<Rightarrow> ('g \<Rightarrow> nat \<times> 'g) \<Rightarrow> real \<Rightarrow> real \<Rightarrow> real \<Rightarrow> nat
     \<Rightarrow> nat \<times> 's \<times> ('s, 'e, 'g) run_state \<Rightarrow> nat \<times> 's \<times> ('s, 'e, 'g) run_state \<Rightarrow> bool" where
  "continues env gen discount_factor alpha epsilon i_episode c c' =
     (q_step env gen discount_factor alpha epsilon i_episode (fst c) (fst (snd c)) (snd (snd c))
        = Inr (fst (snd c'), False, snd (snd c'))
      \<and> fst c' = Suc (fst c))"

text \<open>
  Two environments behave alike from internal states related by \<open>R\<close>: they have the same
  action count, and from related states \<^verbatim>\<open>reset\<close> and \<^verbatim>\<open>step\<close> return the same
  observation, or raise the same exception, and lead to related states again. A
  deterministic environment run twice is the case of one environment and two of its
  internal states from which it behaves the same.
\<close>

definition env_sim ::
  "('e1 \<Rightarrow> 'e2 \<Rightarrow> bool) \<Rightarrow> ('e1, 's, 'x) env \<Rightarrow> ('e2, 's, 'x) env \<Rightarrow> bool" where
  "env_sim R env1 env2 =
     (env_nA env1 = env_nA env2
      \<and> (\<forall>e1 e2. R e1 e2
            \<longrightarrow> rel_sum (=) (rel_prod (=) R) (env_reset env1 e1) (env_reset env2 e2))
      \<and> (\<forall>e1 e2 a. R e1 e2
            \<longrightarrow> rel_sum (=) (rel_prod (=) R) (env_step env1 e1 a) (env_step env2 e2 a)))"

text \<open>
  Two run states agree on everything the program owns, and their environments are in
  related internal states.
\<close>

definition state_sim ::
  "('e1 \<Rightarrow> 'e2 \<Rightarrow> bool) \<Rightarrow> ('s, 'e1, 'g) run_state \<Rightarrow> ('s, 'e2, 'g) run_state \<Rightarrow> bool" where
  "state_sim R st1 st2 =
     (Qtab st1 = Qtab st2 \<and> stats st1 = stats st2 \<and> rng_state st1 = rng_state st2
      \<and> history st1 = history st2 \<and> R (env_state st1) (env_state st2))"

section \<open>Concrete environments and a concrete generator\<close>

text \<open>A generator that counts: the raw draws from seed \<open>g\<close> are \<open>g, g + 1, ...\<close>.\<close>

definition counter_gen :: "nat \<Rightarrow> nat \<times> nat" where
  "counter_gen g = (g, Suc g)"

text \<open>
  Four actions; every episode starts in state 0 and its first step ends it in state 1
  with reward \<open>r\<close>.
\<close>

definition env_once :: "real \<Rightarrow> (unit, nat, unit) env" where
  "env_once r =
     \<lparr>env_nA = 4, env_reset = (\<lambda>e. Inr (0, e)), env_step = (\<lambda>e a. Inr ((1, r, True), e))\<rparr>"

text \<open>
  The two-state, two-action environment of the specification's end-to-end scenario:
  action 0 leads from state 0 to state 1 with reward 1 and ends the episode, action 1
  stays in state 0 with reward 0.
\<close>

definition env_two :: "(unit, nat, unit) env" where
  "env_two =
     \<lparr>env_nA = 2, env_reset = (\<lambda>e. Inr (0, e)),
      env_step = (\<lambda>e a. if a = 0 then Inr ((1, 1, True), e) else Inr ((0, 0, False), e))\<rparr>"

text \<open>
  The same behaviour as \<open>env_once r\<close>, by an environment that counts its steps in its
  internal state.
\<close>

definition env_once_counting :: "real \<Rightarrow> (nat, nat, unit) env" where
  "env_once_counting r =
     \<lparr>env_nA = 4, env_reset = (\<lambda>e. Inr (0, e)),
      env_step = (\<lambda>e a. Inr ((1, r, True), Suc e))\<rparr>"

text \<open>
  Two environments that raise: the first at its first \<^verbatim>\<open>step\<close> (whatever the action),
  the second at \<^verbatim>\<open>reset\<close>. The exception is a string.
\<close>

definition env_step_raises :: "(unit, nat, string) env" where
  "env_step_raises =
     \<lparr>env_nA = 4, env_reset = (\<lambda>e. Inr (0, e)), env_step = (\<lambda>e a. Inl ''step failed'')\<rparr>"

definition env_reset_raises :: "(unit, nat, string) env" where
  "env_reset_raises =
     \<lparr>env_nA = 4, env_reset = (\<lambda>e. Inl ''reset failed''),
      env_step = (\<lambda>e a. Inr ((1, 1, True), e))\<rparr>"




section \<open>Properties of float64 rounding\<close>

lemma round_half_even_of_int: "round_half_even (of_int n) = n"
  by (simp add: round_half_even_def)

lemma round_half_even_error: "\<bar>of_int (round_half_even y) - y\<bar> \<le> 1 / 2"
  unfolding round_half_even_def by (auto simp: abs_le_iff) 

lemma round_half_even_lower: "of_int a \<le> y \<Longrightarrow> a \<le> round_half_even y"
proof -
  assume "of_int a \<le> y"
  then have "a \<le> \<lfloor>y\<rfloor>" by (simp add: le_floor_iff)
  then show ?thesis by (simp add: round_half_even_def)
qed

lemma round_half_even_upper: "y \<le> of_int b \<Longrightarrow> round_half_even y \<le> b"
proof -
  assume le: "y \<le> of_int b"
  then have fl: "\<lfloor>y\<rfloor> \<le> b" by (simp add: floor_le_iff)
  show ?thesis
  proof (cases "y = of_int \<lfloor>y\<rfloor>")
    case True
    then have "round_half_even y = \<lfloor>y\<rfloor>" by (simp add: round_half_even_def)
    with fl show ?thesis by simp
  next
    case False
    have "of_int \<lfloor>y\<rfloor> \<le> y" by simp
    with False have "of_int \<lfloor>y\<rfloor> < y" by linarith
    with le have "of_int \<lfloor>y\<rfloor> < (of_int b :: real)" by linarith
    then have "\<lfloor>y\<rfloor> < b" by simp
    then have "\<lfloor>y\<rfloor> + 1 \<le> b" by simp
    with fl show ?thesis by (simp add: round_half_even_def)
  qed
qed

lemma ulp_exponent_normal:
  assumes "(2::real) powr of_int (k + 52) \<le> \<bar>x\<bar>" and "\<bar>x\<bar> < (2::real) powr of_int (k + 53)"
    and "- 1074 \<le> k"
  shows "ulp_exponent x = k"
proof -
  have "0 < (2::real) powr of_int (k + 52)" by simp
  with assms(1) have pos: "0 < \<bar>x\<bar>" by linarith
  have "\<lfloor>log 2 \<bar>x\<bar>\<rfloor> = k + 52"
    using assms(1,2) by (subst floor_log_eq_powr_iff [OF pos]) (simp_all add: add.commute)
  with assms(3) show ?thesis by (simp add: ulp_exponent_def)
qed

lemma ulp_exponent_subnormal:
  assumes "x \<noteq> 0" and "\<bar>x\<bar> < (2::real) powr - 1022"
  shows "ulp_exponent x = - 1074"
proof -
  from assms(1) have pos: "0 < \<bar>x\<bar>" by simp
  have "log 2 \<bar>x\<bar> < - 1022"
    using assms(2) pos by (simp add: log_less_iff)
  then have "\<lfloor>log 2 \<bar>x\<bar>\<rfloor> < - 1022" by (simp add: floor_less_iff)
  then show ?thesis unfolding ulp_exponent_def by linarith
qed

lemma f64_zero: "f64 0 = 0"
  by (simp add: f64_def)

lemma f64_nonneg: "0 \<le> x \<Longrightarrow> 0 \<le> f64 x"
proof -
  assume "0 \<le> x"
  then have "of_int 0 \<le> x / 2 powr of_int (ulp_exponent x)" by simp
  then have "0 \<le> round_half_even (x / 2 powr of_int (ulp_exponent x))"
    by (rule round_half_even_lower)
  then show ?thesis by (simp add: f64_def)
qed

lemma f64_representable:
  assumes "x / 2 powr of_int (ulp_exponent x) = of_int n"
  shows "f64 x = x"
proof (cases "x = 0")
  case True
  then show ?thesis by (simp add: f64_zero)
next
  case False
  have "0 < (2::real) powr of_int (ulp_exponent x)" by simp
  with assms have "x = of_int n * 2 powr of_int (ulp_exponent x)"
    by (simp add: field_simps)
  then show ?thesis
    using False assms by (simp add: f64_def round_half_even_of_int)
qed

lemma f64_normal:
  assumes "(2::real) powr of_int (k + 52) \<le> \<bar>x\<bar>" and "\<bar>x\<bar> < (2::real) powr of_int (k + 53)" and "- 1074 \<le> k"
  shows "f64 x = of_int (round_half_even (x / 2 powr of_int k)) * 2 powr of_int k"
proof -
  have "0 < (2::real) powr of_int (k + 52)" by simp
  with assms(1) have "x \<noteq> 0" by auto
  with ulp_exponent_normal [OF assms] show ?thesis by (simp add: f64_def)
qed

lemma two_powr_diff: "(2::real) powr (real m - real n) = 2 ^ m / 2 ^ n"
proof -
  have "(2::real) powr (real m - real n) = 2 powr real m / 2 powr real n"
    by (rule powr_diff)
  then show ?thesis by (simp add: powr_realpow)
qed

lemma f64_eval:
  assumes "2 ^ 52 \<le> \<bar>x\<bar> * 2 ^ n" and "\<bar>x\<bar> * 2 ^ n < 2 ^ 53" and "n \<le> 1074"
  shows "f64 x = of_int (round_half_even (x * 2 ^ n)) / 2 ^ n"
proof -
  have e0: "real_of_int (- int n) = real 0 - real n" by simp
  have e52: "real_of_int (- int n + 52) = real 52 - real n" by simp
  have e53: "real_of_int (- int n + 53) = real 53 - real n" by simp
  have p: "(2::real) powr of_int (- int n) = 1 / 2 ^ n"
    unfolding e0 two_powr_diff by simp
  have a: "(2::real) powr of_int (- int n + 52) = 2 ^ 52 / 2 ^ n"
    unfolding e52 two_powr_diff ..
  have b: "(2::real) powr of_int (- int n + 53) = 2 ^ 53 / 2 ^ n"
    unfolding e53 two_powr_diff ..
  have pos: "0 < (2::real) ^ n" by simp
  have 1: "2 powr of_int (- int n + 52) \<le> \<bar>x\<bar>"
    unfolding a using assms(1) pos by (simp only: pos_divide_le_eq)
  have 2: "\<bar>x\<bar> < 2 powr of_int (- int n + 53)"
    unfolding b using assms(2) pos by (simp only: pos_less_divide_eq)
  have 3: "- 1074 \<le> - int n" using assms(3) by simp
  from f64_normal [OF 1 2 3]
  have "f64 x = of_int (round_half_even (x / (1 / 2 ^ n))) * (1 / 2 ^ n)"
    unfolding p .
  then show ?thesis by simp
qed

lemma f64_one: "f64 1 = 1"
proof -
  have "f64 1 = of_int (round_half_even (1 * 2 ^ 52)) / 2 ^ 52"
    by (rule f64_eval) simp_all
  also have "(1::real) * 2 ^ 52 = of_int (2 ^ 52)" by simp
  finally show ?thesis by (simp only: round_half_even_of_int) simp
qed

lemma ulp_le:
  assumes "x \<noteq> 0"
  shows "(2::real) powr of_int (ulp_exponent x) \<le> \<bar>x\<bar> * 2 powr - 52 + 2 powr - 1074"
proof (cases "\<lfloor>log 2 \<bar>x\<bar>\<rfloor> - 52 \<le> - 1074")
  case True
  then have "ulp_exponent x = - 1074" by (simp add: ulp_exponent_def)
  then have "(2::real) powr of_int (ulp_exponent x) = 2 powr - 1074"
    by (simp del: powr_neg_numeral)
  moreover have "0 \<le> \<bar>x\<bar> * (2::real) powr - 52"
    by (simp del: powr_neg_numeral)
  ultimately show ?thesis by (simp only: le_add_same_cancel2)
next
  case False
  then have e: "ulp_exponent x = \<lfloor>log 2 \<bar>x\<bar>\<rfloor> - 52" by (simp add: ulp_exponent_def)
  from assms have pos: "0 < \<bar>x\<bar>" by simp
  have "(2::real) powr of_int \<lfloor>log 2 \<bar>x\<bar>\<rfloor> \<le> \<bar>x\<bar>"
    using floor_log_eq_powr_iff [OF pos, of 2 "\<lfloor>log 2 \<bar>x\<bar>\<rfloor>"] by simp
  then have "2 powr of_int \<lfloor>log 2 \<bar>x\<bar>\<rfloor> * (2::real) powr - 52 \<le> \<bar>x\<bar> * 2 powr - 52"
    by (rule mult_right_mono) (rule powr_ge_zero)
  moreover have "(2::real) powr of_int (ulp_exponent x)
      = 2 powr of_int \<lfloor>log 2 \<bar>x\<bar>\<rfloor> * 2 powr - 52"
  proof -
    have "real_of_int (\<lfloor>log 2 \<bar>x\<bar>\<rfloor> - 52) = of_int \<lfloor>log 2 \<bar>x\<bar>\<rfloor> + (- 52)" by simp
    then show ?thesis unfolding e by (simp only: powr_add)
  qed
  moreover have "0 \<le> (2::real) powr - 1074" by (rule powr_ge_zero)
  ultimately show ?thesis by (simp only: add_increasing2)
qed

lemma two_powr_half: "(2::real) powr (a - 1) = 1 / 2 * 2 powr a"
  by (simp add: powr_diff)

lemma f64_error: "\<bar>f64 x - x\<bar> \<le> \<bar>x\<bar> * 2 powr - 53 + 2 powr - 1075"
proof (cases "x = 0")
  case True
  have "0 \<le> (2::real) powr - 1075" by (rule powr_ge_zero)
  with True show ?thesis by (simp add: f64_zero del: powr_neg_numeral)
next
  case False
  let ?p = "(2::real) powr of_int (ulp_exponent x)"
  have pos: "0 < ?p" by simp
  have "f64 x - x = (of_int (round_half_even (x / ?p)) - x / ?p) * ?p"
    using False by (simp add: f64_def field_simps)
  then have "\<bar>f64 x - x\<bar> = \<bar>of_int (round_half_even (x / ?p)) - x / ?p\<bar> * ?p"
    by (simp add: abs_mult)
  also have "\<dots> \<le> 1 / 2 * ?p"
    by (rule mult_right_mono [OF round_half_even_error]) simp
  also have "\<dots> \<le> 1 / 2 * (\<bar>x\<bar> * 2 powr - 52 + 2 powr - 1074)"
    by (rule mult_left_mono [OF ulp_le [OF False]]) simp
  also have "\<dots> = \<bar>x\<bar> * (1 / 2 * 2 powr - 52) + 1 / 2 * 2 powr - 1074"
    by (simp only: distrib_left mult.assoc mult.left_commute)
  also have "1 / 2 * (2::real) powr - 52 = 2 powr - 53"
    using two_powr_half [of "- 52"] by (simp del: powr_neg_numeral)
  also have "1 / 2 * (2::real) powr - 1074 = 2 powr - 1075"
    using two_powr_half [of "- 1074"] by (simp del: powr_neg_numeral)
  finally show ?thesis .
qed

lemma ulp_exponent_ge: "- 1074 \<le> ulp_exponent x"
  by (simp add: ulp_exponent_def)

lemma two_powr_53: "(2::real) powr of_int (e + 53) = 2 powr of_int e * 2 ^ 53"
proof -
  have "real_of_int (e + 53) = of_int e + real 53" by simp
  then have "(2::real) powr of_int (e + 53) = 2 powr of_int e * 2 powr real 53"
    by (simp only: powr_add)
  moreover have "(2::real) powr real 53 = 2 ^ 53" by (rule powr_realpow) simp
  ultimately show ?thesis by (simp only:)
qed

lemma abs_less_next_binade:
  assumes "x \<noteq> 0"
  shows "\<bar>x\<bar> < 2 powr of_int (ulp_exponent x + 53)"
proof -
  from assms have pos: "0 < \<bar>x\<bar>" by simp
  have "\<bar>x\<bar> < 2 powr of_int (\<lfloor>log 2 \<bar>x\<bar>\<rfloor> + 1)"
    using floor_log_eq_powr_iff [OF pos, of 2 "\<lfloor>log 2 \<bar>x\<bar>\<rfloor>"] by simp
  also have "\<dots> \<le> 2 powr of_int (ulp_exponent x + 53)"
  proof -
    have "\<lfloor>log 2 \<bar>x\<bar>\<rfloor> + 1 \<le> ulp_exponent x + 53" by (simp add: ulp_exponent_def)
    then have "real_of_int (\<lfloor>log 2 \<bar>x\<bar>\<rfloor> + 1) \<le> real_of_int (ulp_exponent x + 53)"
      by (simp only: of_int_le_iff)
    then show ?thesis by (rule powr_mono) simp
  qed
  finally show ?thesis .
qed

lemma ulp_exponent_upper:
  assumes "y \<noteq> 0" and "\<bar>y\<bar> < 2 powr of_int (e + 53)" and "- 1074 \<le> e"
  shows "ulp_exponent y \<le> e"
proof -
  from assms(1) have pos: "0 < \<bar>y\<bar>" by simp
  from assms(2) pos have "log 2 \<bar>y\<bar> < of_int (e + 53)"
    by (simp add: log_less_iff)
  then have "\<lfloor>log 2 \<bar>y\<bar>\<rfloor> < e + 53" by (simp only: floor_less_iff)
  with assms(3) show ?thesis unfolding ulp_exponent_def by linarith
qed

lemma scaled_int:
  assumes "e' \<le> e"
  shows "real_of_int n * 2 powr of_int e / 2 powr of_int e' = of_int (n * 2 ^ nat (e - e'))"
proof -
  have "real_of_int e = of_int e' + real (nat (e - e'))" using assms by simp
  then have "(2::real) powr of_int e = 2 powr of_int e' * 2 powr real (nat (e - e'))"
    by (simp only: powr_add)
  also have "(2::real) powr real (nat (e - e')) = 2 ^ nat (e - e')"
    by (simp add: powr_realpow)
  finally show ?thesis by simp
qed

lemma f64_idempotent: "f64 (f64 x) = f64 x"
proof (cases "x = 0")
  case True
  then show ?thesis by (simp add: f64_zero)
next
  case False
  define e where "e = ulp_exponent x"
  define n where "n = round_half_even (x / 2 powr of_int e)"
  have y: "f64 x = of_int n * 2 powr of_int e"
    using False by (simp add: f64_def e_def n_def)
  have e_ge: "- 1074 \<le> e" unfolding e_def by (rule ulp_exponent_ge)
  have pe: "0 < (2::real) powr of_int e" by simp
  from abs_less_next_binade [OF False]
  have "\<bar>x\<bar> < 2 powr of_int e * 2 ^ 53" unfolding e_def two_powr_53 .
  with pe have m: "\<bar>x / 2 powr of_int e\<bar> < 2 ^ 53"
    by (simp add: abs_mult field_simps)
  then have up: "x / 2 powr of_int e \<le> of_int (2 ^ 53)"
    and lo: "of_int (- (2 ^ 53)) \<le> x / 2 powr of_int e"
    by (simp_all add: abs_less_iff del: abs_divide)
  have n_le: "n \<le> 2 ^ 53"
    unfolding n_def using up by (rule round_half_even_upper)
  have n_ge: "- (2 ^ 53) \<le> n"
    unfolding n_def using lo by (rule round_half_even_lower)
  show ?thesis
  proof (cases "n = 0")
    case True
    with y show ?thesis by (simp add: f64_zero)
  next
    case n0: False
    with y pe have y0: "f64 x \<noteq> 0" by simp
    show ?thesis
    proof (cases "\<bar>n\<bar> = 2 ^ 53")
      case True
      then have ay: "\<bar>f64 x\<bar> = 2 powr of_int (e + 53)"
        unfolding y two_powr_53 by (simp add: abs_mult)
      have "(2::real) powr of_int (e + 1 + 52) \<le> \<bar>f64 x\<bar>"
        unfolding ay by (simp add: add.assoc)
      moreover have "\<bar>f64 x\<bar> < (2::real) powr of_int (e + 1 + 53)"
        unfolding ay by (rule powr_less_mono) simp_all
      moreover have "- 1074 \<le> e + 1" using e_ge by simp
      ultimately have ue: "ulp_exponent (f64 x) = e + 1" by (rule ulp_exponent_normal)
      have "real_of_int (e + 1) = of_int e + 1" by simp
      then have p1: "(2::real) powr of_int (e + 1) = 2 powr of_int e * 2"
        by (simp only: powr_add) simp
      have "f64 x / 2 powr of_int (ulp_exponent (f64 x)) = f64 x / 2 powr of_int (e + 1)"
        by (simp only: ue)
      also have "\<dots> = of_int n / 2"
        unfolding y p1 using pe by simp
      also have "real_of_int n / 2 = of_int (n div 2)"
      proof -
        from True have "n = 2 ^ 53 \<or> n = - (2 ^ 53)" by (auto simp: abs_if split: if_splits)
        then show ?thesis by auto
      qed
      finally show ?thesis by (rule f64_representable)
    next
      case False
      with n_le n_ge have "\<bar>n\<bar> < 2 ^ 53" by simp
      then have "\<bar>real_of_int n\<bar> < 2 ^ 53"
        by (metis of_int_abs of_int_less_numeral_power_cancel_iff)
      then have "\<bar>f64 x\<bar> < 2 powr of_int (e + 53)"
        unfolding y two_powr_53 using pe by (simp add: abs_mult)
      from ulp_exponent_upper [OF y0 this e_ge]
      have "ulp_exponent (f64 x) \<le> e" .
      from scaled_int [OF this, of n]
      have "f64 x / 2 powr of_int (ulp_exponent (f64 x))
          = of_int (n * 2 ^ nat (e - ulp_exponent (f64 x)))"
        unfolding y .
      then show ?thesis by (rule f64_representable)
    qed
  qed
qed

section \<open>Properties of the numpy operations\<close>

lemma argmax_scan_first_max:
  assumes "b < length ys" and "ys ! b = m" and "i = length ys"
    and "\<forall>j<length ys. ys ! j \<le> m" and "\<forall>j<b. ys ! j < m"
  shows "argmax_scan b m i xs < length (ys @ xs)
    \<and> (\<forall>j<length (ys @ xs). (ys @ xs) ! j \<le> (ys @ xs) ! argmax_scan b m i xs)
    \<and> (\<forall>j<argmax_scan b m i xs. (ys @ xs) ! j < (ys @ xs) ! argmax_scan b m i xs)"
  using assms
proof (induction xs arbitrary: ys b m i)
  case Nil
  then show ?case by simp
next
  case (Cons x xs)
  show ?case
  proof (cases "m < x")
    case True
    have "argmax_scan (length ys) x (Suc (length ys)) xs < length ((ys @ [x]) @ xs)
      \<and> (\<forall>j<length ((ys @ [x]) @ xs). ((ys @ [x]) @ xs) ! j
            \<le> ((ys @ [x]) @ xs) ! argmax_scan (length ys) x (Suc (length ys)) xs)
      \<and> (\<forall>j<argmax_scan (length ys) x (Suc (length ys)) xs. ((ys @ [x]) @ xs) ! j
            < ((ys @ [x]) @ xs) ! argmax_scan (length ys) x (Suc (length ys)) xs)"
    proof (rule Cons.IH)
      show "\<forall>j<length (ys @ [x]). (ys @ [x]) ! j \<le> x"
      proof (intro allI impI)
        fix j assume "j < length (ys @ [x])"
        then consider "j < length ys" | "j = length ys" by fastforce
        then show "(ys @ [x]) ! j \<le> x"
        proof cases
          case 1
          then have "ys ! j \<le> m" using Cons.prems by blast
          then show ?thesis using 1 True by (simp add: nth_append)
        next
          case 2
          then show ?thesis by simp
        qed
      qed
      show "\<forall>j<length ys. (ys @ [x]) ! j < x"
      proof (intro allI impI)
        fix j assume j: "j < length ys"
        then have "ys ! j \<le> m" using Cons.prems by blast
        then show "(ys @ [x]) ! j < x" using j True by (simp add: nth_append)
      qed
    qed simp_all
    then show ?thesis using True Cons.prems by simp
  next
    case False
    have "argmax_scan b m (Suc (length ys)) xs < length ((ys @ [x]) @ xs)
      \<and> (\<forall>j<length ((ys @ [x]) @ xs). ((ys @ [x]) @ xs) ! j
            \<le> ((ys @ [x]) @ xs) ! argmax_scan b m (Suc (length ys)) xs)
      \<and> (\<forall>j<argmax_scan b m (Suc (length ys)) xs. ((ys @ [x]) @ xs) ! j
            < ((ys @ [x]) @ xs) ! argmax_scan b m (Suc (length ys)) xs)"
    proof (rule Cons.IH)
      show "b < length (ys @ [x])" using Cons.prems by simp
      show "(ys @ [x]) ! b = m" using Cons.prems by (simp add: nth_append)
      show "\<forall>j<length (ys @ [x]). (ys @ [x]) ! j \<le> m"
        using Cons.prems False by (auto simp: nth_append less_Suc_eq)
      show "\<forall>j<b. (ys @ [x]) ! j < m"
        using Cons.prems by (auto simp: nth_append)
    qed simp
    then show ?thesis using False Cons.prems by simp
  qed
qed

lemma argmax_first_max:
  assumes "v \<noteq> []"
  shows "\<exists>b. argmax v = (Inr b :: 'x error + nat) \<and> b < length v \<and> v ! b = Max (set v)
    \<and> (\<forall>j<b. v ! j < v ! b)"
proof -
  from assms obtain x xs where v: "v = x # xs" by (cases v) auto
  let ?b = "argmax_scan 0 x 1 xs"
  have h: "?b < length ([x] @ xs)
    \<and> (\<forall>j<length ([x] @ xs). ([x] @ xs) ! j \<le> ([x] @ xs) ! ?b)
    \<and> (\<forall>j<?b. ([x] @ xs) ! j < ([x] @ xs) ! ?b)"
    by (rule argmax_scan_first_max) simp_all
  then have lt: "?b < length v" and le: "\<forall>j<length v. v ! j \<le> v ! ?b"
    and first: "\<forall>j<?b. v ! j < v ! ?b"
    by (simp_all add: v)
  have "Max (set v) = v ! ?b"
  proof (rule Max_eqI)
    show "finite (set v)" by simp
    show "v ! ?b \<in> set v" using lt by simp
    fix y assume "y \<in> set v"
    then obtain j where "j < length v" "v ! j = y" by (auto simp: in_set_conv_nth)
    then show "y \<le> v ! ?b" using le by auto
  qed
  then show ?thesis using lt first by (simp add: argmax_def v)
qed

lemma argmax_empty: "argmax [] = Inl ValueError"
  by (simp add: argmax_def)

lemma replicate_2: "replicate 2 x = [x, x]"
  by (simp add: numeral_2_eq_2)

lemma replicate_4: "replicate 4 x = [x, x, x, x]"
  by (simp add: numeral_eq_Suc)

lemma upt_2: "[0 ..< 2] = [0, 1]"
  by (simp add: numeral_2_eq_2)

section \<open>Properties of the Q table\<close>

lemma getitem_fst: "fst (getitem Q s) = Qval Q s"
  by (simp add: Qval_def)

lemma getitem_factory_len: "factory_len (snd (getitem Q s)) = factory_len Q"
  by (simp add: getitem_def split: option.splits)

lemma getitem_items_same: "items (snd (getitem Q s)) s = Some (Qval Q s)"
  by (simp add: Qval_def getitem_def split: option.splits)

lemma getitem_items_other: "s' \<noteq> s \<Longrightarrow> items (snd (getitem Q s)) s' = items Q s'"
  by (simp add: getitem_def split: option.splits)

lemma getitem_present: "items Q s = Some v \<Longrightarrow> getitem Q s = (v, Q)"
  by (simp add: getitem_def)

lemma getitem_Qval: "Qval (snd (getitem Q s)) s' = Qval Q s'"
  by (simp add: Qval_def getitem_def split: option.splits)

lemma getitem_dom: "dom (items (snd (getitem Q s))) = insert s (dom (items Q))"
  by (auto simp: getitem_def split: option.splits)

lemma getitem_cases:
  obtains Q' where "getitem Q s = (Qval Q s, Q')" and "factory_len Q' = factory_len Q"
    and "items Q' s = Some (Qval Q s)" and "\<And>s'. s' \<noteq> s \<Longrightarrow> items Q' s' = items Q s'"
    and "\<And>s'. Qval Q' s' = Qval Q s'" and "dom (items Q') = insert s (dom (items Q))"
proof -
  have "getitem Q s = (Qval Q s, snd (getitem Q s))"
    by (simp add: Qval_def)
  then show ?thesis
    using that getitem_factory_len getitem_items_same getitem_items_other getitem_Qval getitem_dom
    by metis
qed

lemma Qval_setitem: "Qval (setitem Q s v) s' = (if s' = s then v else Qval Q s')"
  by (simp add: Qval_def getitem_def setitem_def split: option.splits)

lemma setitem_factory_len: "factory_len (setitem Q s v) = factory_len Q"
  by (simp add: setitem_def)

lemma setitem_dom: "dom (items (setitem Q s v)) = insert s (dom (items Q))"
  by (auto simp: setitem_def)

lemma Qval_absent: "items Q s = None \<Longrightarrow> Qval Q s = replicate (factory_len Q) 0"
  by (simp add: Qval_def getitem_def)

lemma Qval_present: "items Q s = Some v \<Longrightarrow> Qval Q s = v"
  by (simp add: Qval_def getitem_def)

section \<open>Properties of the policy generator\<close>

lemma scaled_ones_eq: "scaled_ones epsilon nA = replicate nA (f64 (epsilon / real nA))"
  by (simp add: scaled_ones_def f64_idempotent)

lemma policy_fn_result:
  assumes "policy_fn Q epsilon nA s = (Inr (p, Q') :: 'x error + real list \<times> 's defaultdict)"
  shows "0 < nA \<and> Q' = snd (getitem Q s)
    \<and> (\<exists>b. argmax (Qval Q s) = (Inr b :: 'x error + nat) \<and> b < nA
          \<and> p = (replicate nA (f64 (epsilon / real nA)))
                  [b := f64 (f64 (epsilon / real nA) + f64 (1 - epsilon))])"
  using assms
  by (auto simp: policy_fn_def Qval_def scaled_ones_eq split: if_splits prod.splits sum.splits)

lemma policy_fn_succeeds:
  assumes "0 < nA" and "length (Qval Q s) = nA"
  shows "\<exists>b. argmax (Qval Q s) = (Inr b :: 'x error + nat) \<and> b < nA
    \<and> policy_fn Q epsilon nA s
        = (Inr ((replicate nA (f64 (epsilon / real nA)))
                  [b := f64 (f64 (epsilon / real nA) + f64 (1 - epsilon))],
               snd (getitem Q s)) :: 'x error + real list \<times> 's defaultdict)"
proof -
  from assms have "Qval Q s \<noteq> []" by auto
  from argmax_first_max [OF this] obtain b :: nat
    where b: "(argmax (Qval Q s) :: 'x error + nat) = Inr b" "b < length (Qval Q s)"
    by blast
  then show ?thesis
    using assms by (auto simp: policy_fn_def Qval_def scaled_ones_eq split: prod.splits)
qed

lemma sum_list_replicate_update:
  fixes c d :: real
  assumes "b < n"
  shows "sum_list ((replicate n c)[b := d]) = real n * c - c + d"
proof -
  have "(replicate n c)[b := d] = replicate b c @ d # replicate (n - Suc b) c"
    using assms by (simp add: list_eq_iff_nth_eq nth_append nth_Cons split: nat.splits) 
  then have "sum_list ((replicate n c)[b := d]) = real b * c + d + real (n - Suc b) * c"
    by (simp add: sum_list_replicate)
  also have "\<dots> = real n * c - c + d"
    using assms by (simp add: of_nat_diff algebra_simps)
  finally show ?thesis .
qed

lemma f64_1_40: "f64 (1 / 40) = 3602879701896397 / 144115188075855872"
proof -
  have "f64 (1 / 40) = of_int (round_half_even (1 / 40 * 2 ^ 58)) / 2 ^ 58"
    by (rule f64_eval) simp_all
  also have "round_half_even (1 / 40 * 2 ^ 58) = 7205759403792794"
    by (simp add: round_half_even_def)
  finally show ?thesis by simp
qed

lemma f64_9_10: "f64 (9 / 10) = 8106479329266893 / 9007199254740992"
proof -
  have "f64 (9 / 10) = of_int (round_half_even (9 / 10 * 2 ^ 53)) / 2 ^ 53"
    by (rule f64_eval) simp_all
  also have "round_half_even (9 / 10 * 2 ^ 53) = 8106479329266893"
    by (simp add: round_half_even_def)
  finally show ?thesis by simp
qed

lemma f64_sum_tenth_4: "f64 (133306548970166685 / 144115188075855872) = 4165829655317709 / 4503599627370496"
proof -
  have "f64 (133306548970166685 / 144115188075855872) = of_int (round_half_even (133306548970166685 / 144115188075855872 * 2 ^ 53)) / 2 ^ 53"
    by (rule f64_eval) simp_all
  also have "round_half_even (133306548970166685 / 144115188075855872 * 2 ^ 53) = 8331659310635418"
    by (simp add: round_half_even_def)
  finally show ?thesis by simp
qed

lemma f64_1_20: "f64 (1 / 20) = 3602879701896397 / 72057594037927936"
proof -
  have "f64 (1 / 20) = of_int (round_half_even (1 / 20 * 2 ^ 57)) / 2 ^ 57"
    by (rule f64_eval) simp_all
  also have "round_half_even (1 / 20 * 2 ^ 57) = 7205759403792794"
    by (simp add: round_half_even_def)
  finally show ?thesis by simp
qed

lemma f64_sum_tenth_2: "f64 (68454714336031541 / 72057594037927936) = 8556839292003943 / 9007199254740992"
proof -
  have "f64 (68454714336031541 / 72057594037927936) = of_int (round_half_even (68454714336031541 / 72057594037927936 * 2 ^ 53)) / 2 ^ 53"
    by (rule f64_eval) simp_all
  also have "round_half_even (68454714336031541 / 72057594037927936 * 2 ^ 53) = 8556839292003943"
    by (simp add: round_half_even_def)
  finally show ?thesis by simp
qed

lemma f64_3_20: "f64 (3 / 20) = 5404319552844595 / 36028797018963968"
proof -
  have "f64 (3 / 20) = of_int (round_half_even (3 / 20 * 2 ^ 55)) / 2 ^ 55"
    by (rule f64_eval) simp_all
  also have "round_half_even (3 / 20 * 2 ^ 55) = 5404319552844595"
    by (simp add: round_half_even_def)
  finally show ?thesis by simp
qed

lemma f64_half_3_20: "f64 (5404319552844595 / 72057594037927936) = 5404319552844595 / 72057594037927936"
proof -
  have "f64 (5404319552844595 / 72057594037927936) = of_int (round_half_even (5404319552844595 / 72057594037927936 * 2 ^ 56)) / 2 ^ 56"
    by (rule f64_eval) simp_all
  also have "round_half_even (5404319552844595 / 72057594037927936 * 2 ^ 56) = 5404319552844595"
    by (simp add: round_half_even_def)
  finally show ?thesis by simp
qed

lemma f64_one_minus_3_20: "f64 (30624477466119373 / 36028797018963968) = 7656119366529843 / 9007199254740992"
proof -
  have "f64 (30624477466119373 / 36028797018963968) = of_int (round_half_even (30624477466119373 / 36028797018963968 * 2 ^ 53)) / 2 ^ 53"
    by (rule f64_eval) simp_all
  also have "round_half_even (30624477466119373 / 36028797018963968 * 2 ^ 53) = 7656119366529843"
    by (simp add: round_half_even_def)
  finally show ?thesis by simp
qed

lemma f64_sum_3_20: "f64 (66653274485083339 / 72057594037927936) = 8331659310635417 / 9007199254740992"
proof -
  have "f64 (66653274485083339 / 72057594037927936) = of_int (round_half_even (66653274485083339 / 72057594037927936 * 2 ^ 53)) / 2 ^ 53"
    by (rule f64_eval) simp_all
  also have "round_half_even (66653274485083339 / 72057594037927936 * 2 ^ 53) = 8331659310635417"
    by (simp add: round_half_even_def)
  finally show ?thesis by simp
qed

lemma f64_1_10: "f64 (1 / 10) = 3602879701896397 / 36028797018963968"
proof -
  have "f64 (1 / 10) = of_int (round_half_even (1 / 10 * 2 ^ 56)) / 2 ^ 56"
    by (rule f64_eval) simp_all
  also have "round_half_even (1 / 10 * 2 ^ 56) = 7205759403792794"
    by (simp add: round_half_even_def)
  finally show ?thesis by simp
qed

lemma f64_float_tenth_4: "f64 (3602879701896397 / 144115188075855872) = 3602879701896397 / 144115188075855872"
proof -
  have "f64 (3602879701896397 / 144115188075855872) = of_int (round_half_even (3602879701896397 / 144115188075855872 * 2 ^ 58)) / 2 ^ 58"
    by (rule f64_eval) simp_all
  also have "round_half_even (3602879701896397 / 144115188075855872 * 2 ^ 58) = 7205759403792794"
    by (simp add: round_half_even_def)
  finally show ?thesis by simp
qed

lemma f64_float_tenth_2: "f64 (3602879701896397 / 72057594037927936) = 3602879701896397 / 72057594037927936"
proof -
  have "f64 (3602879701896397 / 72057594037927936) = of_int (round_half_even (3602879701896397 / 72057594037927936 * 2 ^ 57)) / 2 ^ 57"
    by (rule f64_eval) simp_all
  also have "round_half_even (3602879701896397 / 72057594037927936 * 2 ^ 57) = 7205759403792794"
    by (simp add: round_half_even_def)
  finally show ?thesis by simp
qed

lemma f64_one_minus_float_tenth: "f64 (32425917317067571 / 36028797018963968) = 8106479329266893 / 9007199254740992"
proof -
  have "f64 (32425917317067571 / 36028797018963968) = of_int (round_half_even (32425917317067571 / 36028797018963968 * 2 ^ 53)) / 2 ^ 53"
    by (rule f64_eval) simp_all
  also have "round_half_even (32425917317067571 / 36028797018963968 * 2 ^ 53) = 8106479329266893"
    by (simp add: round_half_even_def)
  finally show ?thesis by simp
qed

text \<open>
  The theorems below write \<open>1 / 10\<close> for the program's \<open>epsilon = 0.1\<close>. The float64
  \<open>0.1\<close> is \<open>f64 (1 / 10)\<close>; for two and for four actions the policy computes the same
  numbers from either.
\<close>

lemma policy_fn_float_tenth:
  assumes "nA = 2 \<or> nA = 4"
  shows "policy_fn Q (f64 (1 / 10)) nA s = policy_fn Q (1 / 10) nA s"
proof -
  have a: "scaled_ones (f64 (1 / 10)) nA = scaled_ones (1 / 10) nA"
    using assms
    by (auto simp: scaled_ones_eq f64_1_10 f64_float_tenth_4 f64_float_tenth_2 f64_1_40 f64_1_20)
  have b: "f64 (1 - f64 (1 / 10)) = f64 (1 - 1 / 10)"
    by (simp add: f64_1_10 f64_one_minus_float_tenth f64_9_10)
  show ?thesis unfolding policy_fn_def a b ..
qed

lemma policy_sum_bound:
  fixes epsilon :: real
  assumes "0 < nA" and "real nA \<le> 2 ^ 53" and "0 \<le> epsilon" and "epsilon \<le> 1" and "b < nA"
  shows "\<bar>sum_list ((replicate nA (f64 (epsilon / real nA)))
                    [b := f64 (f64 (epsilon / real nA) + f64 (1 - epsilon))]) - 1\<bar>
           \<le> 2 powr - 50"
proof -
  define d :: real where "d = 2 powr - 53"
  define h :: real where "h = 2 powr - 1075"
  define c where "c = epsilon / real nA"
  define s where "s = f64 c"
  define t where "t = f64 (1 - epsilon)"
  define w where "w = f64 (s + t)"
  have d0: "0 \<le> d" unfolding d_def by (rule powr_ge_zero)
  have h0: "0 \<le> h" unfolding h_def by (rule powr_ge_zero)
  have "(2::real) powr - 53 \<le> 2 powr - 2" by (rule powr_mono) simp_all
  also have "(2::real) powr - 2 = 1 / 4" by (simp add: powr_neg_numeral)
  finally have d4: "d \<le> 1 / 4" unfolding d_def .
  have hd: "h \<le> d" unfolding h_def d_def by (rule powr_mono) simp_all
  have nh: "real nA * h \<le> d"
  proof -
    have "real nA * h \<le> 2 ^ 53 * h" by (rule mult_right_mono [OF assms(2) h0])
    also have "(2::real) ^ 53 = 2 powr 53" by simp
    also have "(2::real) powr 53 * h = 2 powr (53 + - 1075)"
      unfolding h_def by (simp only: powr_add)
    also have "\<dots> \<le> d" unfolding d_def by (rule powr_mono) simp_all
    finally show ?thesis .
  qed
  from assms(1) have n1: "1 \<le> real nA" by simp
  have c0: "0 \<le> c" unfolding c_def using assms(3) by simp
  have nc: "real nA * c = epsilon" unfolding c_def using assms(1) by simp
  have "c \<le> epsilon"
    unfolding c_def using assms(3) n1 by (simp add: divide_le_eq mult_le_cancel_left1)
  with assms(4) have c1: "c \<le> 1" by simp
  have A: "\<bar>s - c\<bar> \<le> c * d + h"
    using f64_error [of c] c0 unfolding s_def d_def h_def by simp
  have "c * d \<le> 1 * d" by (rule mult_right_mono [OF c1 d0])
  with A hd have A': "\<bar>s - c\<bar> \<le> 2 * d" by simp
  have "real nA * \<bar>s - c\<bar> \<le> real nA * (c * d + h)"
    by (rule mult_left_mono [OF A]) simp
  also have "\<dots> = epsilon * d + real nA * h"
    using nc by (simp add: algebra_simps)
  also have "\<dots> \<le> 1 * d + d"
    by (rule add_mono [OF mult_right_mono [OF assms(4) d0] nh])
  finally have nA_err: "real nA * \<bar>s - c\<bar> \<le> 2 * d" by simp
  have "\<bar>t - (1 - epsilon)\<bar> \<le> (1 - epsilon) * d + h"
    using f64_error [of "1 - epsilon"] assms(4) unfolding t_def d_def h_def by simp
  moreover have "(1 - epsilon) * d \<le> 1 * d"
    by (rule mult_right_mono [OF _ d0]) (use assms(3) in simp)
  ultimately have B: "\<bar>t - (1 - epsilon)\<bar> \<le> 2 * d" using hd by simp
  have "\<bar>s + t\<bar> \<le> \<bar>s - c\<bar> + \<bar>t - (1 - epsilon)\<bar> + \<bar>c + (1 - epsilon)\<bar>"
    by linarith
  also have "\<dots> \<le> 2 * d + 2 * d + 2"
    using A' B c0 c1 assms(3,4) by (intro add_mono) simp_all
  also have "\<dots> \<le> 3" using d4 by simp
  finally have st: "\<bar>s + t\<bar> \<le> 3" .
  have "\<bar>w - (s + t)\<bar> \<le> \<bar>s + t\<bar> * d + h"
    using f64_error [of "s + t"] unfolding w_def d_def h_def by simp
  moreover have "\<bar>s + t\<bar> * d \<le> 3 * d" by (rule mult_right_mono [OF st d0])
  ultimately have C: "\<bar>w - (s + t)\<bar> \<le> 4 * d" using hd by simp
  have "sum_list ((replicate nA s)[b := w]) = real nA * s - s + w"
    by (rule sum_list_replicate_update [OF assms(5)])
  also have "\<dots> - 1 = real nA * (s - c) + (w - (s + t)) + (t - (1 - epsilon))"
    using nc by (simp add: algebra_simps)
  finally have "\<bar>sum_list ((replicate nA s)[b := w]) - 1\<bar>
      \<le> \<bar>real nA * (s - c)\<bar> + \<bar>w - (s + t)\<bar> + \<bar>t - (1 - epsilon)\<bar>"
    by linarith
  also have "\<bar>real nA * (s - c)\<bar> = real nA * \<bar>s - c\<bar>" by (simp add: abs_mult)
  also have "real nA * \<bar>s - c\<bar> + \<bar>w - (s + t)\<bar> + \<bar>t - (1 - epsilon)\<bar> \<le> 2 * d + 4 * d + 2 * d"
    by (intro add_mono nA_err C B)
  also have "2 * d + 4 * d + 2 * d = 2 powr 3 * 2 powr - 53" unfolding d_def by simp
  also have "\<dots> = 2 powr (3 + - 53)" by (simp only: powr_add)
  also have "(3::real) + - 53 = - 50" by simp
  finally show ?thesis unfolding s_def t_def w_def c_def .
qed

text \<open>
  C3, as stated, fails: the entries are computed in float64, and their sum need not be
  1. With \<open>epsilon = 0.15\<close> (the float64 nearest to 3/20) and two actions, on a state
  not yet in the table, the policy is \<open>[0.9249999999999999, 0.075]\<close>, whose sum is
  \<open>1 - 5 / 2 ^ 56\<close>.
\<close>

theorem policy_fn_sum_below_one:
  "make_epsilon_greedy_policy (f64 (3 / 20)) 2 (new_defaultdict 2 :: nat defaultdict) 0
     = (Inr ([8331659310635417 / 9007199254740992, 5404319552844595 / 72057594037927936],
             setitem (new_defaultdict 2) 0 [0, 0])
        :: unit error + real list \<times> nat defaultdict)
   \<and> sum_list [8331659310635417 / 9007199254740992, 5404319552844595 / 72057594037927936 :: real]
       = 1 - 5 / 2 ^ 56
   \<and> sum_list [8331659310635417 / 9007199254740992, 5404319552844595 / 72057594037927936 :: real]
       \<noteq> 1"
  by (simp add: make_epsilon_greedy_policy_def policy_fn_def getitem_def argmax_def
      setitem_def new_defaultdict_def scaled_ones_eq replicate_2
      f64_3_20 f64_half_3_20 f64_one_minus_3_20 f64_sum_3_20)

text \<open>
  C3, amended. For a positive action count \<open>nA\<close> (at most \<open>2 ^ 53\<close>), an \<open>epsilon\<close> in
  \<open>[0, 1]\<close> and a state whose value vector \<open>Q[state]\<close> has \<open>nA\<close> entries (a missing state
  counts with its default zeros), the policy returns an \<open>nA\<close>-length vector of float64
  numbers: every action other than \<open>b\<close>, the lowest-index action attaining the maximum
  of \<open>Q[state]\<close>, gets the float64 quotient \<open>epsilon / nA\<close>, and \<open>b\<close> gets the float64 sum
  of that quotient and the float64 difference \<open>1 - epsilon\<close>. The entries are
  non-negative and sum to 1 up to rounding: the sum is within \<open>2 ^ -50\<close> of 1. With
  \<open>epsilon = 0\<close> the entry of \<open>b\<close> is exactly 1 and the others are exactly 0; with
  \<open>epsilon = 1\<close> every entry is the float64 quotient \<open>1 / nA\<close>.
\<close>

theorem policy_fn_epsilon_greedy_rounded:
  assumes "0 < nA" and "real nA \<le> 2 ^ 53" and "0 \<le> epsilon" and "epsilon \<le> 1"
    and "length (Qval Q s) = nA"
  shows "\<exists>p Q' b.
      make_epsilon_greedy_policy epsilon nA Q s
        = (Inr (p, Q') :: 'x error + real list \<times> 's defaultdict)
    \<and> length p = nA
    \<and> b < nA \<and> Qval Q s ! b = Max (set (Qval Q s)) \<and> (\<forall>j<b. Qval Q s ! j < Qval Q s ! b)
    \<and> (\<forall>a<nA. p ! a = (if a = b then f64 (f64 (epsilon / real nA) + f64 (1 - epsilon))
                          else f64 (epsilon / real nA)))
    \<and> (\<forall>a<nA. 0 \<le> p ! a)
    \<and> \<bar>sum_list p - 1\<bar> \<le> 2 powr - 50
    \<and> (epsilon = 0 \<longrightarrow> (\<forall>a<nA. p ! a = (if a = b then 1 else 0)))
    \<and> (epsilon = 1 \<longrightarrow> (\<forall>a<nA. p ! a = f64 (1 / real nA)))"
proof -
  from assms have ne: "Qval Q s \<noteq> []" by auto
  from argmax_first_max [OF ne] obtain b :: nat
    where b: "(argmax (Qval Q s) :: 'x error + nat) = Inr b" "b < length (Qval Q s)"
      "Qval Q s ! b = Max (set (Qval Q s))" "\<forall>j<b. Qval Q s ! j < Qval Q s ! b"
    by blast
  define p where "p = (replicate nA (f64 (epsilon / real nA)))
    [b := f64 (f64 (epsilon / real nA) + f64 (1 - epsilon))]"
  have bn: "b < nA" using b assms by simp
  have run: "make_epsilon_greedy_policy epsilon nA Q s
      = (Inr (p, snd (getitem Q s)) :: 'x error + real list \<times> 's defaultdict)"
    using policy_fn_succeeds [OF assms(1) assms(5), of epsilon, where 'x = 'x] b(1)
    by (simp add: make_epsilon_greedy_policy_def p_def)
  have len: "length p = nA" by (simp add: p_def)
  have entry: "\<forall>a<nA. p ! a = (if a = b then f64 (f64 (epsilon / real nA) + f64 (1 - epsilon))
                          else f64 (epsilon / real nA))"
    by (simp add: p_def nth_list_update)
  have q0: "0 \<le> f64 (epsilon / real nA)"
    by (rule f64_nonneg) (use assms in simp)
  have q1: "0 \<le> f64 (1 - epsilon)"
    by (rule f64_nonneg) (use assms in simp)
  have "0 \<le> f64 (f64 (epsilon / real nA) + f64 (1 - epsilon))"
    by (rule f64_nonneg) (simp add: q0 q1)
  with entry q0 have nonneg: "\<forall>a<nA. 0 \<le> p ! a" by simp
  have total: "\<bar>sum_list p - 1\<bar> \<le> 2 powr - 50"
    unfolding p_def by (rule policy_sum_bound [OF assms(1-4) bn])
  have zero: "epsilon = 0 \<longrightarrow> (\<forall>a<nA. p ! a = (if a = b then 1 else 0))"
    using entry by (simp add: f64_zero f64_one)
  have one: "epsilon = 1 \<longrightarrow> (\<forall>a<nA. p ! a = f64 (1 / real nA))"
    using entry by (simp add: f64_zero f64_idempotent)
  show ?thesis
    using run len bn b(3) b(4) entry nonneg total zero one by blast
qed

theorem policy_fn_epsilon_greedy_rounded_witness:
  "(0::nat) < 2 \<and> real (2::nat) \<le> 2 ^ 53 \<and> (0::real) \<le> 1 / 10 \<and> (1::real) / 10 \<le> 1
   \<and> length (Qval (setitem (new_defaultdict 2) (0::nat) [1, 1]) 0) = 2
   \<and> (\<exists>p Q' b.
      make_epsilon_greedy_policy (1 / 10) 2 (setitem (new_defaultdict 2) (0::nat) [1, 1]) 0
        = (Inr (p, Q') :: unit error + real list \<times> nat defaultdict)
    \<and> length p = 2
    \<and> b < 2 \<and> Qval (setitem (new_defaultdict 2) (0::nat) [1, 1]) 0 ! b
         = Max (set (Qval (setitem (new_defaultdict 2) (0::nat) [1, 1]) 0))
    \<and> (\<forall>a<2. p ! a = (if a = b then f64 (f64 ((1 / 10) / real 2) + f64 (1 - 1 / 10))
                         else f64 ((1 / 10) / real 2)))
    \<and> (\<forall>a<2. 0 \<le> p ! a)
    \<and> \<bar>sum_list p - 1\<bar> \<le> 2 powr - 50)"
proof -
  have len: "length (Qval (setitem (new_defaultdict 2) (0::nat) [1, 1]) 0) = 2"
    by (simp add: Qval_setitem)
  have "(0::nat) < 2" and "real (2::nat) \<le> 2 ^ 53" and "(0::real) \<le> 1 / 10"
    and "(1::real) / 10 \<le> 1"
    by simp_all
  from policy_fn_epsilon_greedy_rounded [OF this len, where 'x = unit] len
  show ?thesis by fastforce
qed

text \<open>
  C7, as stated, fails: a policy call on a state that is not yet a key of the
  defaultdict stores that state with a fresh zero vector, so the dictionary the call
  leaves behind differs from the one it was given.
\<close>

theorem policy_fn_inserts_missing_state:
  "make_epsilon_greedy_policy (1 / 10) 2 (new_defaultdict 2 :: nat defaultdict) (0::nat)
     = (Inr ([8556839292003943 / 9007199254740992, 3602879701896397 / 72057594037927936],
             setitem (new_defaultdict 2 :: nat defaultdict) 0 [0, 0])
        :: unit error + real list \<times> nat defaultdict)
   \<and> items (new_defaultdict 2 :: nat defaultdict) (0::nat) = None
   \<and> items (setitem (new_defaultdict 2 :: nat defaultdict) (0::nat) [0, 0]) 0 = Some [0, 0]
   \<and> setitem (new_defaultdict 2 :: nat defaultdict) (0::nat) [0, 0] \<noteq> (new_defaultdict 2 :: nat defaultdict)"
proof -
  have neq: "setitem (new_defaultdict 2 :: nat defaultdict) (0::nat) [0, 0] \<noteq> (new_defaultdict 2 :: nat defaultdict)"
  proof
    assume "setitem (new_defaultdict 2 :: nat defaultdict) (0::nat) [0, 0] = (new_defaultdict 2 :: nat defaultdict)"
    then have "items (setitem (new_defaultdict 2 :: nat defaultdict) (0::nat) [0, 0]) 0
        = items (new_defaultdict 2 :: nat defaultdict) 0"
      by simp
    then show False by (simp add: setitem_def new_defaultdict_def)
  qed
  then show ?thesis
    by (simp add: make_epsilon_greedy_policy_def policy_fn_def getitem_def argmax_def
        setitem_def new_defaultdict_def scaled_ones_eq replicate_2
        f64_1_20 f64_9_10 f64_sum_tenth_2)
qed

text \<open>
  C7, amended. A policy call never changes what a lookup yields: for every state,
  \<open>Q[state]\<close> evaluates to the same vector after the call as before, the default
  factory is unchanged, and every key other than the queried state is stored exactly as
  before. The one effect on the dictionary is that the queried state is a key afterwards,
  holding the vector the lookup yielded (its old vector, or the default zeros when it was
  missing); when the queried state was already a key, the dictionary is unchanged.
\<close>

theorem policy_fn_preserves_lookups:
  assumes "make_epsilon_greedy_policy epsilon nA Q s
             = (Inr (p, Q') :: 'x error + real list \<times> 's defaultdict)"
  shows "(\<forall>s'. Qval Q' s' = Qval Q s')
    \<and> factory_len Q' = factory_len Q
    \<and> (\<forall>s'. s' \<noteq> s \<longrightarrow> items Q' s' = items Q s')
    \<and> items Q' s = Some (Qval Q s)
    \<and> dom (items Q') = insert s (dom (items Q))
    \<and> (s \<in> dom (items Q) \<longrightarrow> Q' = Q)"
proof -
  from assms have "policy_fn Q epsilon nA s
      = (Inr (p, Q') :: 'x error + real list \<times> 's defaultdict)"
    by (simp add: make_epsilon_greedy_policy_def)
  from policy_fn_result [OF this] have Q': "Q' = snd (getitem Q s)" by simp
  have "s \<in> dom (items Q) \<longrightarrow> Q' = Q"
    by (auto simp: Q' getitem_def)
  then show ?thesis
    unfolding Q'
    by (simp add: getitem_Qval getitem_factory_len getitem_items_other getitem_items_same
        getitem_dom)
qed

theorem policy_fn_preserves_lookups_witness:
  "make_epsilon_greedy_policy (1 / 10) 2 (new_defaultdict 2 :: nat defaultdict) (0::nat)
     = (Inr ([8556839292003943 / 9007199254740992, 3602879701896397 / 72057594037927936],
             setitem (new_defaultdict 2 :: nat defaultdict) 0 [0, 0])
        :: unit error + real list \<times> nat defaultdict)
   \<and> (\<forall>s'. Qval (setitem (new_defaultdict 2 :: nat defaultdict) (0::nat) [0, 0]) s' = Qval (new_defaultdict 2 :: nat defaultdict) s')
   \<and> items (setitem (new_defaultdict 2 :: nat defaultdict) (0::nat) [0, 0]) 0 = Some (Qval (new_defaultdict 2 :: nat defaultdict) 0)"
proof -
  have run: "make_epsilon_greedy_policy (1 / 10) 2 (new_defaultdict 2 :: nat defaultdict) (0::nat)
     = (Inr ([8556839292003943 / 9007199254740992, 3602879701896397 / 72057594037927936],
             setitem (new_defaultdict 2 :: nat defaultdict) 0 [0, 0])
        :: unit error + real list \<times> nat defaultdict)"
    by (simp add: make_epsilon_greedy_policy_def policy_fn_def getitem_def argmax_def
        setitem_def new_defaultdict_def scaled_ones_eq replicate_2
        f64_1_20 f64_9_10 f64_sum_tenth_2)
  from policy_fn_preserves_lookups [OF run] run show ?thesis by simp
qed

section \<open>Properties of the sampling\<close>

lemma length_cumsum: "length (cumsum acc p) = length p"
  by (induction p arbitrary: acc) simp_all

lemma last_cumsum: "p \<noteq> [] \<Longrightarrow> last (cumsum acc p) = acc + sum_list p"
proof (induction p arbitrary: acc)
  case Nil
  then show ?case by simp
next
  case (Cons x xs)
  show ?case
  proof (cases xs)
    case Nil
    then show ?thesis by simp
  next
    case (Cons y ys)
    then have "xs \<noteq> []" by simp
    from Cons.IH [OF this, of "acc + x"] Cons show ?thesis by simp
  qed
qed

lemma random_sample_below_one: "fst (random_sample gen g) < 1"
proof -
  obtain k g' where kg: "gen g = (k, g')" by (cases "gen g")
  have "k mod 2 ^ 53 < (2::nat) ^ 53" by simp
  then have "real (k mod 2 ^ 53) < real ((2::nat) ^ 53)"
    by (rule of_nat_less_iff [THEN iffD2])
  then have "real (k mod 2 ^ 53) / 2 ^ 53 < 1" by simp
  then show ?thesis by (simp add: random_sample_def kg)
qed

lemma random_sample_snd: "snd (random_sample gen g) = snd (gen g)"
  by (simp add: random_sample_def split: prod.splits)

lemma searchsorted_right_less:
  assumes "cdf \<noteq> []" and "u < last cdf"
  shows "searchsorted_right cdf u < length cdf"
proof -
  have "last cdf \<in> set cdf" using assms(1) by simp
  with assms(2) have "\<not> (\<forall>c\<in>set cdf. c \<le> u)" by force
  then have "dropWhile (\<lambda>c. c \<le> u) cdf \<noteq> []" by (simp add: dropWhile_eq_Nil_conv)
  then have "0 < length (dropWhile (\<lambda>c. c \<le> u) cdf)" by simp
  moreover have "length (takeWhile (\<lambda>c. c \<le> u) cdf) + length (dropWhile (\<lambda>c. c \<le> u) cdf)
      = length cdf"
    by (metis length_append takeWhile_dropWhile_id)
  ultimately show ?thesis unfolding searchsorted_right_def by linarith
qed

lemma random_choice_result:
  assumes "random_choice gen a p g = (Inr (k, g') :: 'x error + nat \<times> 'g)"
  shows "length p = a \<and> k < a \<and> g' = snd (gen g)"
proof -
  from assms have a: "a \<noteq> 0" and len: "length p = a"
    and total: "\<not> 1 / 2 ^ 26 < \<bar>sum_list p - 1\<bar>"
    by (auto simp: random_choice_def split: if_splits)
  let ?cdf = "map (\<lambda>c. c / last (cumsum 0 p)) (cumsum 0 p)"
  from assms a len total have k: "k = searchsorted_right ?cdf (fst (random_sample gen g))"
    and g': "g' = snd (random_sample gen g)"
    by (auto simp: random_choice_def split: if_splits prod.splits)
  from a len have ne: "p \<noteq> []" by auto
  then have cne: "cumsum 0 p \<noteq> []" by (metis length_cumsum length_0_conv)
  have "(1::real) / 2 ^ 26 < 1" by simp
  with total have "0 < sum_list p" by linarith
  then have "last (cumsum 0 p) \<noteq> 0" using last_cumsum [OF ne, of 0] by simp
  then have "last ?cdf = 1" using cne by (simp add: last_map)
  then have "fst (random_sample gen g) < last ?cdf"
    using random_sample_below_one [of gen g] by simp
  moreover have "?cdf \<noteq> []" using cne by simp
  ultimately have "searchsorted_right ?cdf (fst (random_sample gen g)) < length ?cdf"
    by (rule searchsorted_right_less [rotated])
  then have "k < a" using k len by (simp add: length_cumsum)
  then show ?thesis using len g' by (simp add: random_sample_snd)
qed

section \<open>Properties of one step of the learning loop\<close>

lemma select_action_result:
  assumes "select_action gen epsilon nA Q s g
             = (Inr (a, Q', g') :: 'x error + nat \<times> 's defaultdict \<times> 'g)"
  shows "nA = 4 \<and> a < 4 \<and> Q' = snd (getitem Q s) \<and> g' = snd (gen g)"
proof -
  from assms obtain p where pol: "policy_fn Q epsilon nA s
      = (Inr (p, Q') :: 'x error + real list \<times> 's defaultdict)"
    and ch: "random_choice gen 4 p g = (Inr (a, g') :: 'x error + nat \<times> 'g)"
    by (auto simp: select_action_def make_epsilon_greedy_policy_def split: sum.splits prod.splits)
  from policy_fn_result [OF pol] have "length p = nA" and Q': "Q' = snd (getitem Q s)"
    by auto
  with random_choice_result [OF ch] show ?thesis by simp
qed

lemma best_next_result:
  assumes "best_next Q ns = (Inr (b, Q') :: 'x error + nat \<times> 's defaultdict)"
  shows "Q' = snd (getitem Q ns) \<and> b < length (Qval Q ns)
    \<and> Qval Q ns ! b = Max (set (Qval Q ns))"
proof -
  from assms have am: "argmax (Qval Q ns) = (Inr b :: 'x error + nat)"
    and Q': "Q' = snd (getitem Q ns)"
    by (auto simp: best_next_def Qval_def split: prod.splits sum.splits)
  then have "Qval Q ns \<noteq> []" by (auto simp: argmax_def)
  from argmax_first_max [OF this, where 'x = 'x] am Q' show ?thesis by auto
qed

lemma record_stats_result:
  assumes "record_stats s i_episode i reward = (Inr s' :: 'x error + EpisodeStats)"
  shows "i_episode < length (episode_rewards s) \<and> i_episode < length (episode_lengths s)
    \<and> episode_lengths s' = (episode_lengths s)[i_episode := real i]
    \<and> episode_rewards s'
        = (episode_rewards s)[i_episode := episode_rewards s ! i_episode + reward]"
  using assms by (auto simp: record_stats_def split: if_splits)

lemma td_update_result:
  assumes "td_update Q discount_factor alpha s a reward ns b
             = (Inr Q' :: 'x error + 's defaultdict)"
  shows "a < length (Qval Q s) \<and> b < length (Qval Q ns)
    \<and> Q' = setitem (snd (getitem (snd (getitem (snd (getitem Q s)) ns)) s)) s
             ((Qval Q s)[a := Qval Q s ! a
                + alpha * (reward + discount_factor * (Qval Q ns ! b) - Qval Q s ! a)])"
proof -
  define Q1 where "Q1 = snd (getitem Q s)"
  define Q2 where "Q2 = snd (getitem Q1 ns)"
  define Q3 where "Q3 = snd (getitem Q2 s)"
  have Q1: "\<And>s'. Qval Q1 s' = Qval Q s'" by (simp add: Q1_def getitem_Qval)
  have Q2: "\<And>s'. Qval Q2 s' = Qval Q s'" by (simp add: Q2_def getitem_Qval Q1)
  have 1: "getitem Q s = (Qval Q s, Q1)" by (simp add: Q1_def Qval_def)
  have "getitem Q1 ns = (Qval Q1 ns, Q2)" by (simp add: Q2_def Qval_def)
  then have 2: "getitem Q1 ns = (Qval Q ns, Q2)" by (simp add: Q1)
  have "getitem Q2 s = (Qval Q2 s, Q3)" by (simp add: Q3_def Qval_def)
  then have 3: "getitem Q2 s = (Qval Q s, Q3)" by (simp add: Q2)
  have Q3: "Q3 = snd (getitem (snd (getitem (snd (getitem Q s)) ns)) s)"
    by (simp add: Q3_def Q2_def Q1_def)
  have unfolded: "td_update Q discount_factor alpha s a reward ns b
      = (if a < length (Qval Q s)
         then if b < length (Qval Q ns)
              then Inr (setitem Q3 s
                     ((Qval Q s)[a := Qval Q s ! a
                        + alpha * (reward + discount_factor * (Qval Q ns ! b) - Qval Q s ! a)]))
              else Inl IndexError
         else (Inl IndexError :: 'x error + 's defaultdict))"
    by (simp add: td_update_def 1 2 3)
  show ?thesis
  proof (cases "a < length (Qval Q s) \<and> b < length (Qval Q ns)")
    case True
    with assms unfolded show ?thesis unfolding Q3 [symmetric] by simp
  next
    case False
    with assms unfolded show ?thesis by (simp split: if_splits)
  qed
qed


lemma td_update_factory_len:
  assumes "td_update Q discount_factor alpha s a reward ns b
             = (Inr Q' :: 'x error + 's defaultdict)"
  shows "factory_len Q' = factory_len Q"
  using td_update_result [OF assms] by (simp add: setitem_factory_len getitem_factory_len)

lemma td_update_dom:
  assumes "td_update Q discount_factor alpha s a reward ns b
             = (Inr Q' :: 'x error + 's defaultdict)"
  shows "dom (items Q') = insert s (insert ns (dom (items Q)))"
  using td_update_result [OF assms] by (auto simp: setitem_dom getitem_dom)

lemma q_step_result:
  assumes "q_step env gen discount_factor alpha epsilon i_episode i s st
             = (Inr (ns, d, st') :: 'x error + 's \<times> bool \<times> ('s, 'e, 'g) run_state)"
  shows "\<exists>a r b. env_nA env = 4 \<and> a < 4
    \<and> env_step env (env_state st) a = Inr ((ns, r, d), env_state st')
    \<and> rng_state st' = snd (gen (rng_state st))
    \<and> history st' = history st @ [(s, a, r, ns, d)]
    \<and> record_stats (stats st) i_episode i r = (Inr (stats st') :: 'x error + EpisodeStats)
    \<and> b < length (Qval (Qtab st) ns)
    \<and> Qval (Qtab st) ns ! b = Max (set (Qval (Qtab st) ns))
    \<and> td_update (snd (getitem (snd (getitem (Qtab st) s)) ns)) discount_factor alpha s a r ns b
        = (Inr (Qtab st') :: 'x error + 's defaultdict)"
proof -
  from assms obtain a Q1 g1 where sel: "select_action gen epsilon (env_nA env) (Qtab st) s
      (rng_state st) = (Inr (a, Q1, g1) :: 'x error + nat \<times> 's defaultdict \<times> 'g)"
    by (auto simp: q_step_def split: sum.splits)
  from select_action_result [OF sel] have nA: "env_nA env = 4" and a: "a < 4"
    and Q1: "Q1 = snd (getitem (Qtab st) s)" and g1: "g1 = snd (gen (rng_state st))"
    by simp_all
  from assms sel obtain ns' r d' e1 where stp: "env_step env (env_state st) a
      = Inr ((ns', r, d'), e1)"
    by (auto simp: q_step_def split: sum.splits)
  from assms sel stp obtain b Q2 where bn: "best_next Q1 ns'
      = (Inr (b, Q2) :: 'x error + nat \<times> 's defaultdict)"
    by (auto simp: q_step_def split: sum.splits)
  from assms sel stp bn obtain stats1 where rs: "record_stats (stats st) i_episode i r
      = (Inr stats1 :: 'x error + EpisodeStats)"
    by (auto simp: q_step_def split: sum.splits)
  from assms sel stp bn rs obtain Q3 where td: "td_update Q2 discount_factor alpha s a r ns' b
      = (Inr Q3 :: 'x error + 's defaultdict)"
    by (auto simp: q_step_def split: sum.splits)
  from assms sel stp bn rs td have res: "ns = ns'" "d = d'"
    "st' = \<lparr>Qtab = Q3, stats = stats1, env_state = e1, rng_state = g1,
            history = history st @ [(s, a, r, ns', d')]\<rparr>"
    by (auto simp: q_step_def)
  from best_next_result [OF bn] have Q2: "Q2 = snd (getitem Q1 ns')"
    and b: "b < length (Qval Q1 ns')" "Qval Q1 ns' ! b = Max (set (Qval Q1 ns'))"
    by simp_all
  have "Qval Q1 ns' = Qval (Qtab st) ns'" by (simp add: Q1 getitem_Qval)
  with b have b': "b < length (Qval (Qtab st) ns')"
    "Qval (Qtab st) ns' ! b = Max (set (Qval (Qtab st) ns'))"
    by simp_all
  show ?thesis
    using nA a stp g1 rs b' td unfolding res Q2 Q1 by auto
qed


lemma q_step_factory_len:
  assumes "q_step env gen discount_factor alpha epsilon i_episode i s st
             = (Inr (ns, d, st') :: 'x error + 's \<times> bool \<times> ('s, 'e, 'g) run_state)"
  shows "factory_len (Qtab st') = factory_len (Qtab st)"
proof -
  from q_step_result [OF assms] obtain a r b
    where "td_update (snd (getitem (snd (getitem (Qtab st) s)) ns)) discount_factor alpha
                 s a r ns b = (Inr (Qtab st') :: 'x error + 's defaultdict)"
    by auto
  from td_update_factory_len [OF this] show ?thesis
    by (simp add: getitem_factory_len)
qed

lemma q_step_dom:
  assumes "q_step env gen discount_factor alpha epsilon i_episode i s st
             = (Inr (ns, d, st') :: 'x error + 's \<times> bool \<times> ('s, 'e, 'g) run_state)"
  shows "dom (items (Qtab st')) = insert s (insert ns (dom (items (Qtab st))))"
proof -
  from q_step_result [OF assms] obtain a r b
    where "td_update (snd (getitem (snd (getitem (Qtab st) s)) ns)) discount_factor alpha
                 s a r ns b = (Inr (Qtab st') :: 'x error + 's defaultdict)"
    by auto
  from td_update_dom [OF this] show ?thesis
    by (auto simp: getitem_dom)
qed

section \<open>The claims about one step\<close>

lemmas run_defs =
  q_learning_def q_learning_run_def initial_state_def episode_def q_step_def
  select_action_def make_epsilon_greedy_policy_def policy_fn_def getitem_def argmax_def
  random_choice_def random_sample_def searchsorted_right_def best_next_def record_stats_def
  td_update_def setitem_def new_defaultdict_def counter_gen_def env_once_def env_two_def
  scaled_ones_eq f64_zero f64_one f64_1_40 f64_9_10 f64_sum_tenth_4

text \<open>
  C1 does not hold of the code: line 73 passes the literal 4 to \<^verbatim>\<open>np.random.choice\<close>, not
  \<open>env.nA\<close>. On the two-action environment the policy returns two probabilities, the
  sample space has four elements, and the first step of the first episode raises
  \<^verbatim>\<open>ValueError\<close>: no action is sampled at all.
\<close>

theorem q_learning_two_actions_raises:
  "q_learning 1 env_two counter_gen 1 1 (1 / 2) (1 / 10) () 0 = Some (Inl ValueError)"
  by (simp add: run_defs replicate_2)



section \<open>Invariants of the loops\<close>

lemma episode_loop_invariant:
  assumes "episode_loop fuel env gen discount_factor alpha epsilon i_episode i s st
             = Some (Inr st')"
    and "P st"
    and "\<And>i s st ns d st1. P st
           \<Longrightarrow> q_step env gen discount_factor alpha epsilon i_episode i s st = Inr (ns, d, st1)
           \<Longrightarrow> P st1"
  shows "P st'"
  using assms(1,2)
proof (induction fuel arbitrary: i s st)
  case 0
  then show ?case by simp
next
  case (Suc fuel)
  from Suc.prems(1) obtain ns d st1
    where step: "q_step env gen discount_factor alpha epsilon i_episode i s st = Inr (ns, d, st1)"
    by (auto split: sum.splits)
  from assms(3) [OF Suc.prems(2) step] have P1: "P st1" .
  show ?case
  proof (cases d)
    case True
    with Suc.prems(1) step have "st' = st1" by simp
    with P1 show ?thesis by simp
  next
    case False
    with Suc.prems(1) step
    have "episode_loop fuel env gen discount_factor alpha epsilon i_episode (Suc i) ns st1
        = Some (Inr st')"
      by simp
    from Suc.IH [OF this P1] show ?thesis .
  qed
qed

lemma episode_invariant:
  assumes "episode fuel env gen discount_factor alpha epsilon i_episode st = Some (Inr st')"
    and "P st"
    and "\<And>st e. P st \<Longrightarrow> P (st\<lparr>env_state := e\<rparr>)"
    and "\<And>i s st ns d st1. P st
           \<Longrightarrow> q_step env gen discount_factor alpha epsilon i_episode i s st = Inr (ns, d, st1)
           \<Longrightarrow> P st1"
  shows "P st'"
proof -
  from assms(1) obtain s e1 where "env_reset env (env_state st) = Inr (s, e1)"
    and loop: "episode_loop fuel env gen discount_factor alpha epsilon i_episode 0 s
                 (st\<lparr>env_state := e1\<rparr>) = Some (Inr st')"
    by (auto simp: episode_def split: sum.splits)
  from assms(3) [OF assms(2)] have "P (st\<lparr>env_state := e1\<rparr>)" .
  from episode_loop_invariant [where P = P, OF loop this assms(4)] show ?thesis .
qed

lemma run_episodes_invariant:
  assumes "run_episodes fuel env gen discount_factor alpha epsilon ies st = Some (Inr st')"
    and "P st"
    and "\<And>st e. P st \<Longrightarrow> P (st\<lparr>env_state := e\<rparr>)"
    and "\<And>i_episode i s st ns d st1. i_episode \<in> set ies \<Longrightarrow> P st
           \<Longrightarrow> q_step env gen discount_factor alpha epsilon i_episode i s st = Inr (ns, d, st1)
           \<Longrightarrow> P st1"
  shows "P st'"
  using assms
proof (induction ies arbitrary: st)
  case Nil
  then show ?case by simp
next
  case (Cons i_episode rest)
  from Cons.prems(1) obtain st1
    where ep: "episode fuel env gen discount_factor alpha epsilon i_episode st = Some (Inr st1)"
      and rest: "run_episodes fuel env gen discount_factor alpha epsilon rest st1 = Some (Inr st')"
    by (auto split: option.splits sum.splits)
  have "P st1"
  proof (rule episode_invariant [where P = P, OF ep Cons.prems(2)])
    show "\<And>st e. P st \<Longrightarrow> P (st\<lparr>env_state := e\<rparr>)" by (rule Cons.prems(3))
    show "\<And>i s st ns d st1. P st
           \<Longrightarrow> q_step env gen discount_factor alpha epsilon i_episode i s st = Inr (ns, d, st1)
           \<Longrightarrow> P st1"
      using Cons.prems(4) [of i_episode] by (meson list.set_intros(1))
  qed
  show ?case
  proof (rule Cons.IH [OF rest \<open>P st1\<close>])
    show "\<And>st e. P st \<Longrightarrow> P (st\<lparr>env_state := e\<rparr>)" by (rule Cons.prems(3))
    show "\<And>i_episode i s st ns d st1. i_episode \<in> set rest \<Longrightarrow> P st
           \<Longrightarrow> q_step env gen discount_factor alpha epsilon i_episode i s st = Inr (ns, d, st1)
           \<Longrightarrow> P st1"
      using Cons.prems(4) by (meson list.set_intros(2))
  qed
qed

lemma q_step_stats:
  assumes "q_step env gen discount_factor alpha epsilon i_episode i s st
             = (Inr (ns, d, st') :: 'x error + 's \<times> bool \<times> ('s, 'e, 'g) run_state)"
  shows "\<exists>a r. history st' = history st @ [(s, a, r, ns, d)]
    \<and> i_episode < length (episode_rewards (stats st))
    \<and> i_episode < length (episode_lengths (stats st))
    \<and> episode_lengths (stats st') = (episode_lengths (stats st))[i_episode := real i]
    \<and> episode_rewards (stats st')
        = (episode_rewards (stats st))
            [i_episode := episode_rewards (stats st) ! i_episode + r]"
proof -
  from q_step_result [OF assms] obtain a r
    where hist: "history st' = history st @ [(s, a, r, ns, d)]"
      and rs: "record_stats (stats st) i_episode i r = (Inr (stats st') :: 'x error + EpisodeStats)"
    by auto
  from record_stats_result [OF rs] hist show ?thesis by blast
qed

lemma run_episodes_stats_frame:
  assumes "run_episodes fuel env gen discount_factor alpha epsilon ies st
             = (Some (Inr st') :: ('x error + ('s, 'e, 'g) run_state) option)"
    and "j \<notin> set ies"
  shows "length (episode_lengths (stats st')) = length (episode_lengths (stats st))
    \<and> length (episode_rewards (stats st')) = length (episode_rewards (stats st))
    \<and> episode_lengths (stats st') ! j = episode_lengths (stats st) ! j
    \<and> episode_rewards (stats st') ! j = episode_rewards (stats st) ! j"
proof (rule run_episodes_invariant [OF assms(1), where P = "\<lambda>t.
    length (episode_lengths (stats t)) = length (episode_lengths (stats st))
    \<and> length (episode_rewards (stats t)) = length (episode_rewards (stats st))
    \<and> episode_lengths (stats t) ! j = episode_lengths (stats st) ! j
    \<and> episode_rewards (stats t) ! j = episode_rewards (stats st) ! j"])
  show "length (episode_lengths (stats st)) = length (episode_lengths (stats st))
    \<and> length (episode_rewards (stats st)) = length (episode_rewards (stats st))
    \<and> episode_lengths (stats st) ! j = episode_lengths (stats st) ! j
    \<and> episode_rewards (stats st) ! j = episode_rewards (stats st) ! j"
    by simp
next
  fix t :: "('s, 'e, 'g) run_state" and e
  assume "length (episode_lengths (stats t)) = length (episode_lengths (stats st))
    \<and> length (episode_rewards (stats t)) = length (episode_rewards (stats st))
    \<and> episode_lengths (stats t) ! j = episode_lengths (stats st) ! j
    \<and> episode_rewards (stats t) ! j = episode_rewards (stats st) ! j"
  then show "length (episode_lengths (stats (t\<lparr>env_state := e\<rparr>)))
      = length (episode_lengths (stats st))
    \<and> length (episode_rewards (stats (t\<lparr>env_state := e\<rparr>))) = length (episode_rewards (stats st))
    \<and> episode_lengths (stats (t\<lparr>env_state := e\<rparr>)) ! j = episode_lengths (stats st) ! j
    \<and> episode_rewards (stats (t\<lparr>env_state := e\<rparr>)) ! j = episode_rewards (stats st) ! j"
    by simp
next
  fix i_episode i s ns d and t t1 :: "('s, 'e, 'g) run_state"
  assume mem: "i_episode \<in> set ies"
    and inv: "length (episode_lengths (stats t)) = length (episode_lengths (stats st))
    \<and> length (episode_rewards (stats t)) = length (episode_rewards (stats st))
    \<and> episode_lengths (stats t) ! j = episode_lengths (stats st) ! j
    \<and> episode_rewards (stats t) ! j = episode_rewards (stats st) ! j"
    and step: "q_step env gen discount_factor alpha epsilon i_episode i s t
      = (Inr (ns, d, t1) :: 'x error + 's \<times> bool \<times> ('s, 'e, 'g) run_state)"
  from mem assms(2) have "j \<noteq> i_episode" by auto
  with q_step_stats [OF step] inv
  show "length (episode_lengths (stats t1)) = length (episode_lengths (stats st))
    \<and> length (episode_rewards (stats t1)) = length (episode_rewards (stats st))
    \<and> episode_lengths (stats t1) ! j = episode_lengths (stats st) ! j
    \<and> episode_rewards (stats t1) ! j = episode_rewards (stats st) ! j"
    by auto
qed

section \<open>The claims about the statistics\<close>

text \<open>
  C10. A step of episode \<open>i_episode\<close> changes no statistics entry of another episode
  \<open>j\<close>, and keeps the length of both arrays. Hence running any list of episodes leaves the
  entries of every episode outside the list as they were: the entries of the episodes
  not yet run are still the initial zeros, and the entries of a completed episode are
  not changed by the episodes after it.
\<close>

theorem stats_written_only_by_own_episode:
  "(q_step env gen discount_factor alpha epsilon i_episode i s st
      = (Inr (ns, d, st1) :: 'x error + 's \<times> bool \<times> ('s, 'e, 'g) run_state)
    \<longrightarrow> j \<noteq> i_episode
    \<longrightarrow> length (episode_lengths (stats st1)) = length (episode_lengths (stats st))
        \<and> length (episode_rewards (stats st1)) = length (episode_rewards (stats st))
        \<and> episode_lengths (stats st1) ! j = episode_lengths (stats st) ! j
        \<and> episode_rewards (stats st1) ! j = episode_rewards (stats st) ! j)
   \<and> (run_episodes fuel env gen discount_factor alpha epsilon ies st
      = (Some (Inr st2) :: ('x error + ('s, 'e, 'g) run_state) option)
    \<longrightarrow> j \<notin> set ies
    \<longrightarrow> episode_lengths (stats st2) ! j = episode_lengths (stats st) ! j
        \<and> episode_rewards (stats st2) ! j = episode_rewards (stats st) ! j)
   \<and> (run_episodes fuel env gen discount_factor alpha epsilon [0 ..< k]
        (initial_state env n e0 g0)
      = (Some (Inr st3) :: ('x error + ('s, 'e, 'g) run_state) option)
    \<longrightarrow> k \<le> j \<longrightarrow> j < n
    \<longrightarrow> episode_lengths (stats st3) ! j = 0 \<and> episode_rewards (stats st3) ! j = 0)"
proof (intro conjI impI)
  assume step: "q_step env gen discount_factor alpha epsilon i_episode i s st
      = (Inr (ns, d, st1) :: 'x error + 's \<times> bool \<times> ('s, 'e, 'g) run_state)"
    and neq: "j \<noteq> i_episode"
  from q_step_stats [OF step] neq
  show "length (episode_lengths (stats st1)) = length (episode_lengths (stats st))"
    and "length (episode_rewards (stats st1)) = length (episode_rewards (stats st))"
    and "episode_lengths (stats st1) ! j = episode_lengths (stats st) ! j"
    and "episode_rewards (stats st1) ! j = episode_rewards (stats st) ! j"
    by auto
next
  assume run: "run_episodes fuel env gen discount_factor alpha epsilon ies st
      = (Some (Inr st2) :: ('x error + ('s, 'e, 'g) run_state) option)"
    and out: "j \<notin> set ies"
  from run_episodes_stats_frame [OF run out]
  show "episode_lengths (stats st2) ! j = episode_lengths (stats st) ! j"
    and "episode_rewards (stats st2) ! j = episode_rewards (stats st) ! j"
    by simp_all
next
  assume run: "run_episodes fuel env gen discount_factor alpha epsilon [0 ..< k]
        (initial_state env n e0 g0)
      = (Some (Inr st3) :: ('x error + ('s, 'e, 'g) run_state) option)"
    and kj: "k \<le> j" and jn: "j < n"
  from kj have out: "j \<notin> set [0 ..< k]" by simp
  from run_episodes_stats_frame [OF run out] jn
  show "episode_lengths (stats st3) ! j = 0" and "episode_rewards (stats st3) ! j = 0"
    by (simp_all add: initial_state_def)
qed

theorem stats_written_only_by_own_episode_witness:
  "\<exists>st1 st2. q_step (env_once 1) counter_gen 1 (1 / 2) (1 / 10) 0 0 0
                 (initial_state (env_once 1) 2 () 0)
       = (Inr (1, True, st1) :: unit error + nat \<times> bool \<times> (nat, unit, nat) run_state)
     \<and> (1::nat) \<noteq> 0
     \<and> episode_lengths (stats st1) ! 1 = 0 \<and> episode_rewards (stats st1) ! 1 = 0
     \<and> run_episodes 1 (env_once 1) counter_gen 1 (1 / 2) (1 / 10) [0 ..< 1]
          (initial_state (env_once 1) 2 () 0)
       = (Some (Inr st2) :: (unit error + (nat, unit, nat) run_state) option)
     \<and> (1::nat) \<notin> set [0 ..< 1] \<and> (1::nat) \<le> 1 \<and> (1::nat) < 2
     \<and> episode_rewards (stats st2) ! 0 = 1
     \<and> episode_lengths (stats st2) ! 1 = 0 \<and> episode_rewards (stats st2) ! 1 = 0"
proof -
  have "\<exists>st1. q_step (env_once 1) counter_gen 1 (1 / 2) (1 / 10) 0 0 0
                 (initial_state (env_once 1) 2 () 0)
       = (Inr (1, True, st1) :: unit error + nat \<times> bool \<times> (nat, unit, nat) run_state)"
    by (simp add: run_defs replicate_4 numeral_2_eq_2)
  then obtain st1 where step: "q_step (env_once 1) counter_gen 1 (1 / 2) (1 / 10) 0 0 0
                 (initial_state (env_once 1) 2 () 0)
       = (Inr (1, True, st1) :: unit error + nat \<times> bool \<times> (nat, unit, nat) run_state)"
    by blast
  have "\<exists>st2. run_episodes 1 (env_once 1) counter_gen 1 (1 / 2) (1 / 10) [0 ..< 1]
          (initial_state (env_once 1) 2 () 0)
       = (Some (Inr st2) :: (unit error + (nat, unit, nat) run_state) option)
     \<and> episode_rewards (stats st2) ! 0 = 1"
    by (simp add: run_defs replicate_4 numeral_2_eq_2)
  then obtain st2 where run: "run_episodes 1 (env_once 1) counter_gen 1 (1 / 2) (1 / 10) [0 ..< 1]
          (initial_state (env_once 1) 2 () 0)
       = (Some (Inr st2) :: (unit error + (nat, unit, nat) run_state) option)"
    and r0: "episode_rewards (stats st2) ! 0 = 1"
    by blast
  have neq: "(1::nat) \<noteq> 0" and out: "(1::nat) \<notin> set [0 ..< 1]"
    and le: "(1::nat) \<le> 1" and lt: "(1::nat) < 2"
    by simp_all
  note inst = stats_written_only_by_own_episode
    [where j = 1 and i_episode = 0 and k = 1 and n = 2 and ies = "[0 ..< 1]"]
  from inst [THEN conjunct1, rule_format, OF step neq]
  have a': "episode_lengths (stats st1) ! 1 = 0" "episode_rewards (stats st1) ! 1 = 0"
    by (simp_all add: initial_state_def numeral_2_eq_2)
  from inst [THEN conjunct2, THEN conjunct2, rule_format, OF run le lt]
  have b: "episode_lengths (stats st2) ! 1 = 0" "episode_rewards (stats st2) ! 1 = 0"
    by simp_all
  from step run r0 neq out le lt a' b show ?thesis by blast
qed

lemma run_episodes_stats_nonneg:
  assumes "run_episodes fuel env gen discount_factor alpha epsilon ies st
             = (Some (Inr st') :: ('x error + ('s, 'e, 'g) run_state) option)"
    and "list_all (\<lambda>x. 0 \<le> x) (episode_lengths (stats st))"
    and "list_all (\<lambda>r. 0 \<le> r) (rewards_of (history st'))"
    and "list_all (\<lambda>x. 0 \<le> x) (episode_rewards (stats st))"
  shows "list_all (\<lambda>x. 0 \<le> x) (episode_lengths (stats st'))
    \<and> list_all (\<lambda>x. 0 \<le> x) (episode_rewards (stats st'))"
proof -
  let ?P = "\<lambda>t :: ('s, 'e, 'g) run_state. list_all (\<lambda>x. 0 \<le> x) (episode_lengths (stats t))
    \<and> (list_all (\<lambda>r. 0 \<le> r) (rewards_of (history t))
         \<longrightarrow> list_all (\<lambda>x. 0 \<le> x) (episode_rewards (stats t)))"
  have "?P st'"
  proof (rule run_episodes_invariant [OF assms(1), where P = ?P])
    show "?P st" using assms(2,4) by simp
  next
    fix t :: "('s, 'e, 'g) run_state" and e
    assume "?P t"
    then show "?P (t\<lparr>env_state := e\<rparr>)" by simp
  next
    fix i_episode i s ns d and t t1 :: "('s, 'e, 'g) run_state"
    assume inv: "?P t"
      and step: "q_step env gen discount_factor alpha epsilon i_episode i s t
        = (Inr (ns, d, t1) :: 'x error + 's \<times> bool \<times> ('s, 'e, 'g) run_state)"
    from q_step_stats [OF step] obtain a r
      where hist: "history t1 = history t @ [(s, a, r, ns, d)]"
        and ir: "i_episode < length (episode_rewards (stats t))"
        and len: "episode_lengths (stats t1) = (episode_lengths (stats t))[i_episode := real i]"
        and rew: "episode_rewards (stats t1)
          = (episode_rewards (stats t))[i_episode := episode_rewards (stats t) ! i_episode + r]"
      by blast
    have l: "list_all (\<lambda>x. 0 \<le> x) (episode_lengths (stats t1))"
      using inv unfolding len by (auto simp: list_all_iff dest!: set_update_subset_insert [THEN subsetD])
    have "list_all (\<lambda>x. 0 \<le> x) (episode_rewards (stats t1))"
      if all: "list_all (\<lambda>r. 0 \<le> r) (rewards_of (history t1))"
    proof -
      from all hist have old: "list_all (\<lambda>r. 0 \<le> r) (rewards_of (history t))" and r: "0 \<le> r"
        by (simp_all add: rewards_of_def)
      from inv old have o: "list_all (\<lambda>x. 0 \<le> x) (episode_rewards (stats t))" by simp
      with ir have "0 \<le> episode_rewards (stats t) ! i_episode"
        by (simp add: list_all_length)
      with r have "0 \<le> episode_rewards (stats t) ! i_episode + r" by simp
      with o show ?thesis
        unfolding rew by (auto simp: list_all_iff dest!: set_update_subset_insert [THEN subsetD])
    qed
    with l show "?P t1" by simp
  qed
  with assms(3) show ?thesis by simp
qed

lemma run_episodes_stats_length:
  assumes "run_episodes fuel env gen discount_factor alpha epsilon ies st
             = (Some (Inr st') :: ('x error + ('s, 'e, 'g) run_state) option)"
  shows "length (episode_lengths (stats st')) = length (episode_lengths (stats st))
    \<and> length (episode_rewards (stats st')) = length (episode_rewards (stats st))"
proof -
  obtain j where "j \<notin> set ies"
    using ex_new_if_finite [OF infinite_UNIV_nat finite_set] by blast
  from run_episodes_stats_frame [OF assms this] show ?thesis by simp
qed

text \<open>
  C6, as stated, fails: the rewards array holds sums of the environment's rewards, and
  nothing makes them non-negative. One episode on an environment whose single step has
  reward \<open>-1\<close> leaves \<open>episode_rewards = [-1]\<close>.
\<close>

theorem negative_reward_gives_negative_entry:
  "map_option (map_sum id snd) (q_learning 1 (env_once (- 1)) counter_gen 1 1 (1 / 2) (1 / 10) () 0)
     = Some (Inr \<lparr>episode_lengths = [0], episode_rewards = [- 1]\<rparr>)"
  by (simp add: run_defs replicate_4)

text \<open>
  C6, amended. After a full run, both statistics arrays have \<open>num_episodes\<close> entries,
  every entry of \<open>episode_lengths\<close> is non-negative, and every entry of
  \<open>episode_rewards\<close> is non-negative provided every reward the run observed from the
  environment is non-negative.
\<close>

theorem stats_lengths_and_signs:
  assumes "q_learning_run fuel env gen num_episodes discount_factor alpha epsilon e0 g0
             = (Some (Inr st) :: ('x error + ('s, 'e, 'g) run_state) option)"
  shows "q_learning fuel env gen num_episodes discount_factor alpha epsilon e0 g0
           = Some (Inr (Qtab st, stats st))
    \<and> int (length (episode_lengths (stats st))) = num_episodes
    \<and> int (length (episode_rewards (stats st))) = num_episodes
    \<and> list_all (\<lambda>x. 0 \<le> x) (episode_lengths (stats st))
    \<and> (list_all (\<lambda>r. 0 \<le> r) (rewards_of (history st))
         \<longrightarrow> list_all (\<lambda>x. 0 \<le> x) (episode_rewards (stats st)))"
proof -
  from assms have n: "0 \<le> num_episodes"
    and run: "run_episodes fuel env gen discount_factor alpha epsilon [0 ..< nat num_episodes]
        (initial_state env (nat num_episodes) e0 g0)
      = (Some (Inr st) :: ('x error + ('s, 'e, 'g) run_state) option)"
    by (auto simp: q_learning_run_def split: if_splits)
  have ret: "q_learning fuel env gen num_episodes discount_factor alpha epsilon e0 g0
           = Some (Inr (Qtab st, stats st))"
    by (simp add: q_learning_def assms)
  from run_episodes_stats_length [OF run] n
  have len: "int (length (episode_lengths (stats st))) = num_episodes"
    "int (length (episode_rewards (stats st))) = num_episodes"
    by (simp_all add: initial_state_def)
  have l0: "list_all (\<lambda>x. 0 \<le> x)
      (episode_lengths (stats (initial_state env (nat num_episodes) e0 g0
         :: ('s, 'e, 'g) run_state)))"
    and r0: "list_all (\<lambda>x. 0 \<le> x)
      (episode_rewards (stats (initial_state env (nat num_episodes) e0 g0
         :: ('s, 'e, 'g) run_state)))"
    by (simp_all add: initial_state_def list_all_iff)
  have "list_all (\<lambda>x. 0 \<le> x) (episode_lengths (stats st))"
  proof -
    let ?P = "\<lambda>t :: ('s, 'e, 'g) run_state. list_all (\<lambda>x. 0 \<le> x) (episode_lengths (stats t))"
    show ?thesis
    proof (rule run_episodes_invariant [OF run, where P = ?P])
      show "?P (initial_state env (nat num_episodes) e0 g0)" by (rule l0)
    next
      fix t :: "('s, 'e, 'g) run_state" and e
      assume "?P t" then show "?P (t\<lparr>env_state := e\<rparr>)" by simp
    next
      fix i_episode i s ns d and t t1 :: "('s, 'e, 'g) run_state"
      assume inv: "?P t"
        and step: "q_step env gen discount_factor alpha epsilon i_episode i s t
          = (Inr (ns, d, t1) :: 'x error + 's \<times> bool \<times> ('s, 'e, 'g) run_state)"
      from q_step_stats [OF step]
      have "episode_lengths (stats t1) = (episode_lengths (stats t))[i_episode := real i]"
        by blast
      with inv show "?P t1"
        by (auto simp: list_all_iff dest!: set_update_subset_insert [THEN subsetD])
    qed
  qed
  moreover have "list_all (\<lambda>x. 0 \<le> x) (episode_rewards (stats st))"
    if "list_all (\<lambda>r. 0 \<le> r) (rewards_of (history st))"
    using run_episodes_stats_nonneg [OF run l0 that r0] by simp
  ultimately show ?thesis using ret len by simp
qed

theorem stats_lengths_and_signs_witness:
  "\<exists>st. q_learning_run 1 (env_once 1) counter_gen 1 1 (1 / 2) (1 / 10) () 0
       = (Some (Inr st) :: (unit error + (nat, unit, nat) run_state) option)
     \<and> rewards_of (history st) = [1]
     \<and> list_all (\<lambda>r. 0 \<le> r) (rewards_of (history st))
     \<and> int (length (episode_lengths (stats st))) = 1
     \<and> int (length (episode_rewards (stats st))) = 1
     \<and> list_all (\<lambda>x. 0 \<le> x) (episode_lengths (stats st))
     \<and> list_all (\<lambda>x. 0 \<le> x) (episode_rewards (stats st))"
proof -
  have "\<exists>st. q_learning_run 1 (env_once 1) counter_gen 1 1 (1 / 2) (1 / 10) () 0
       = (Some (Inr st) :: (unit error + (nat, unit, nat) run_state) option)
     \<and> rewards_of (history st) = [1]"
    by (simp add: run_defs replicate_4 rewards_of_def)
  then obtain st where run: "q_learning_run 1 (env_once 1) counter_gen 1 1 (1 / 2) (1 / 10) () 0
       = (Some (Inr st) :: (unit error + (nat, unit, nat) run_state) option)"
    and rew: "rewards_of (history st) = [1]"
    by blast
  from rew have pos: "list_all (\<lambda>r. 0 \<le> r) (rewards_of (history st))" by simp
  from stats_lengths_and_signs [OF run] pos run rew show ?thesis by blast
qed

lemma episode_loop_stats:
  assumes "episode_loop fuel env gen discount_factor alpha epsilon i_episode i s st
             = (Some (Inr st') :: ('x error + ('s, 'e, 'g) run_state) option)"
  shows "\<exists>h. h \<noteq> [] \<and> history st' = history st @ h
    \<and> episode_lengths (stats st') ! i_episode = real (i + length h - 1)
    \<and> episode_rewards (stats st') ! i_episode
        = episode_rewards (stats st) ! i_episode + sum_list (rewards_of h)"
  using assms
proof (induction fuel arbitrary: i s st)
  case 0
  then show ?case by simp
next
  case (Suc fuel)
  from Suc.prems obtain ns d st1
    where step: "q_step env gen discount_factor alpha epsilon i_episode i s st
      = (Inr (ns, d, st1) :: 'x error + 's \<times> bool \<times> ('s, 'e, 'g) run_state)"
    by (auto split: sum.splits)
  from q_step_stats [OF step] obtain a r
    where hist: "history st1 = history st @ [(s, a, r, ns, d)]"
      and ir: "i_episode < length (episode_rewards (stats st))"
      and il: "i_episode < length (episode_lengths (stats st))"
      and len: "episode_lengths (stats st1) = (episode_lengths (stats st))[i_episode := real i]"
      and rew: "episode_rewards (stats st1)
        = (episode_rewards (stats st))[i_episode := episode_rewards (stats st) ! i_episode + r]"
    by blast
  show ?case
  proof (cases d)
    case True
    with Suc.prems step have "st' = st1" by simp
    with hist ir il len rew show ?thesis
      by (intro exI [of _ "[(s, a, r, ns, d)]"]) (simp add: rewards_of_def)
  next
    case False
    with Suc.prems step
    have "episode_loop fuel env gen discount_factor alpha epsilon i_episode (Suc i) ns st1
        = (Some (Inr st') :: ('x error + ('s, 'e, 'g) run_state) option)"
      by simp
    from Suc.IH [OF this] obtain h where h: "h \<noteq> []" "history st' = history st1 @ h"
      "episode_lengths (stats st') ! i_episode = real (Suc i + length h - 1)"
      "episode_rewards (stats st') ! i_episode
        = episode_rewards (stats st1) ! i_episode + sum_list (rewards_of h)"
      by blast
    from h(1) have "0 < length h" by simp
    then have idx: "Suc i + length h - 1 = i + length ((s, a, r, ns, d) # h) - 1" by simp
    from h hist ir rew idx show ?thesis
      by (intro exI [of _ "(s, a, r, ns, d) # h"]) (simp add: rewards_of_def)
  qed
qed

text \<open>
  C4 does not hold of the code. Line 79 stores the loop counter \<open>i\<close>, which starts at 0,
  so after an episode of \<open>k\<close> steps \<open>episode_lengths[i_episode]\<close> is \<open>k - 1\<close>
  (\<open>episode_loop_stats\<close>, with \<open>i = 0\<close>), not the number of steps. On an environment that
  ends every episode at its first step, one step is taken (the history has one
  transition) and the recorded length is 0. The recorded reward is the sum of the
  rewards, as claimed.
\<close>

theorem one_step_episode_has_length_zero:
  "map_option (map_sum id (\<lambda>st. (length (history st), stats st)))
     (q_learning_run 1 (env_once 1) counter_gen 1 1 (1 / 2) (1 / 10) () 0)
   = Some (Inr (1, \<lparr>episode_lengths = [0], episode_rewards = [1]\<rparr>))"
  by (simp add: run_defs replicate_4)

section \<open>The claims about the Q table over a run\<close>

lemma visited_append:
  "visited (h @ [(s, a, r, ns, d)]) = insert s (insert ns (visited h))"
  by (auto simp: visited_def)

lemma run_episodes_Q_keys:
  assumes "run_episodes fuel env gen discount_factor alpha epsilon ies st
             = (Some (Inr st') :: ('x error + ('s, 'e, 'g) run_state) option)"
    and "dom (items (Qtab st)) \<subseteq> visited (history st)"
  shows "factory_len (Qtab st') = factory_len (Qtab st)
    \<and> dom (items (Qtab st')) \<subseteq> visited (history st')"
proof -
  let ?P = "\<lambda>t :: ('s, 'e, 'g) run_state. factory_len (Qtab t) = factory_len (Qtab st)
    \<and> dom (items (Qtab t)) \<subseteq> visited (history t)"
  show ?thesis
  proof (rule run_episodes_invariant [OF assms(1), where P = ?P])
    show "?P st" using assms(2) by simp
  next
    fix t :: "('s, 'e, 'g) run_state" and e
    assume "?P t" then show "?P (t\<lparr>env_state := e\<rparr>)" by simp
  next
    fix i_episode i s ns d and t t1 :: "('s, 'e, 'g) run_state"
    assume inv: "?P t"
      and step: "q_step env gen discount_factor alpha epsilon i_episode i s t
        = (Inr (ns, d, t1) :: 'x error + 's \<times> bool \<times> ('s, 'e, 'g) run_state)"
    from q_step_stats [OF step] obtain a r
      where hist: "history t1 = history t @ [(s, a, r, ns, d)]"
      by blast
    from q_step_factory_len [OF step] q_step_dom [OF step] inv
    show "?P t1" unfolding hist visited_append by auto
  qed
qed

text \<open>
  C5. Looking up a state that is not a key of the Q table yields the factory's zero
  vector (the lookup is a total function: it cannot raise) and stores it, so the state
  reads as zeros from then on. The table starts empty with a factory of \<open>env.nA\<close> zeros;
  a step never changes the factory and adds no keys but the step's state and next
  state. Hence after a run every state that the run did not visit is still missing
  and reads as \<open>env.nA\<close> zeros.
\<close>

theorem unseen_state_reads_zeros:
  "(items Q s = None
     \<longrightarrow> fst (getitem Q s) = replicate (factory_len Q) 0
       \<and> Qval (snd (getitem Q s)) s = replicate (factory_len Q) 0)
   \<and> Qtab (initial_state env n e0 g0 :: ('s, 'e, 'g) run_state) = new_defaultdict (env_nA env)
   \<and> items (new_defaultdict (env_nA env)) s = None
   \<and> (q_step env gen discount_factor alpha epsilon i_episode i s0 st0
        = (Inr (ns, d, st1) :: 'x error + 's \<times> bool \<times> ('s, 'e, 'g) run_state)
     \<longrightarrow> factory_len (Qtab st1) = factory_len (Qtab st0)
       \<and> dom (items (Qtab st1)) = insert s0 (insert ns (dom (items (Qtab st0)))))
   \<and> (q_learning_run fuel env gen num_episodes discount_factor alpha epsilon e0 g0
        = (Some (Inr st) :: ('x error + ('s, 'e, 'g) run_state) option)
     \<longrightarrow> s \<notin> visited (history st)
     \<longrightarrow> items (Qtab st) s = None
       \<and> fst (getitem (Qtab st) s) = replicate (env_nA env) 0)"
proof (intro conjI impI)
  assume "items Q s = None"
  then show "fst (getitem Q s) = replicate (factory_len Q) 0"
    by (simp add: getitem_def)
  show "Qval (snd (getitem Q s)) s = replicate (factory_len Q) 0"
    using \<open>items Q s = None\<close> by (simp add: getitem_Qval Qval_absent)
next
  show "Qtab (initial_state env n e0 g0 :: ('s, 'e, 'g) run_state) = new_defaultdict (env_nA env)"
    by (simp add: initial_state_def)
next
  show "items (new_defaultdict (env_nA env)) s = None"
    by (simp add: new_defaultdict_def)
next
  assume step: "q_step env gen discount_factor alpha epsilon i_episode i s0 st0
        = (Inr (ns, d, st1) :: 'x error + 's \<times> bool \<times> ('s, 'e, 'g) run_state)"
  show "factory_len (Qtab st1) = factory_len (Qtab st0)"
    by (rule q_step_factory_len [OF step])
  show "dom (items (Qtab st1)) = insert s0 (insert ns (dom (items (Qtab st0))))"
    by (rule q_step_dom [OF step])
next
  assume full: "q_learning_run fuel env gen num_episodes discount_factor alpha epsilon e0 g0
        = (Some (Inr st) :: ('x error + ('s, 'e, 'g) run_state) option)"
    and unseen: "s \<notin> visited (history st)"
  from full have run: "run_episodes fuel env gen discount_factor alpha epsilon
        [0 ..< nat num_episodes] (initial_state env (nat num_episodes) e0 g0)
      = (Some (Inr st) :: ('x error + ('s, 'e, 'g) run_state) option)"
    by (auto simp: q_learning_run_def split: if_splits)
  have "dom (items (Qtab (initial_state env (nat num_episodes) e0 g0 :: ('s, 'e, 'g) run_state)))
      \<subseteq> visited (history (initial_state env (nat num_episodes) e0 g0 :: ('s, 'e, 'g) run_state))"
    by (simp add: initial_state_def new_defaultdict_def)
  from run_episodes_Q_keys [OF run this]
  have fl: "factory_len (Qtab st) = env_nA env"
    and keys: "dom (items (Qtab st)) \<subseteq> visited (history st)"
    by (simp_all add: initial_state_def new_defaultdict_def)
  from keys unseen show none: "items (Qtab st) s = None" by auto
  then show "fst (getitem (Qtab st) s) = replicate (env_nA env) 0"
    by (simp add: getitem_def fl)
qed

theorem unseen_state_reads_zeros_witness:
  "\<exists>st. q_learning_run 1 (env_once 1) counter_gen 1 1 (1 / 2) (1 / 10) () 0
       = (Some (Inr st) :: (unit error + (nat, unit, nat) run_state) option)
     \<and> history st = [(0, 0, 1, 1, True)]
     \<and> (7::nat) \<notin> visited (history st)
     \<and> items (Qtab st) 7 = None
     \<and> fst (getitem (Qtab st) 7) = [0, 0, 0, 0]"
proof -
  have "\<exists>st. q_learning_run 1 (env_once 1) counter_gen 1 1 (1 / 2) (1 / 10) () 0
       = (Some (Inr st) :: (unit error + (nat, unit, nat) run_state) option)
     \<and> history st = [(0, 0, 1, 1, True)]"
    by (simp add: run_defs replicate_4)
  then obtain st where run: "q_learning_run 1 (env_once 1) counter_gen 1 1 (1 / 2) (1 / 10) () 0
       = (Some (Inr st) :: (unit error + (nat, unit, nat) run_state) option)"
    and hist: "history st = [(0, 0, 1, 1, True)]"
    by blast
  from hist have unseen: "(7::nat) \<notin> visited (history st)"
    by (simp add: visited_def)
  from unseen_state_reads_zeros
    [THEN conjunct2, THEN conjunct2, THEN conjunct2, THEN conjunct2, rule_format, OF run unseen]
  have "items (Qtab st) 7 = None" and "fst (getitem (Qtab st) 7) = [0, 0, 0, 0]"
    by (simp_all add: env_once_def replicate_4)
  with run hist unseen show ?thesis by blast
qed

section \<open>The claim about errors of the environment\<close>

lemma run_episodes_append:
  "run_episodes fuel env gen discount_factor alpha epsilon (xs @ ys) st
     = (case run_episodes fuel env gen discount_factor alpha epsilon xs st of
          None \<Rightarrow> None
        | Some (Inl e) \<Rightarrow> Some (Inl e)
        | Some (Inr st') \<Rightarrow> run_episodes fuel env gen discount_factor alpha epsilon ys st')"
  by (induction xs arbitrary: st) (auto split: option.splits sum.splits)

lemma episode_loop_raises_after:
  assumes "(continues env gen discount_factor alpha epsilon i_episode ^^ m) (i0, s0, st0) (i, s, st)"
    and "q_step env gen discount_factor alpha epsilon i_episode i s st = Inl e"
    and "m < fuel"
  shows "episode_loop fuel env gen discount_factor alpha epsilon i_episode i0 s0 st0
           = Some (Inl e)"
  using assms
proof (induction m arbitrary: i0 s0 st0 fuel)
  case 0
  then obtain f where "fuel = Suc f" by (cases fuel) auto
  with 0 show ?case by simp
next
  case (Suc m)
  from Suc.prems(3) obtain f where fuel: "fuel = Suc f" and mf: "m < f"
    by (cases fuel) auto
  from Suc.prems(1) obtain c
    where first: "continues env gen discount_factor alpha epsilon i_episode (i0, s0, st0) c"
      and rest: "(continues env gen discount_factor alpha epsilon i_episode ^^ m) c (i, s, st)"
    by (blast dest: relpowp_Suc_D2)
  obtain i1 s1 st1 where c: "c = (i1, s1, st1)" by (cases c)
  from first have step: "q_step env gen discount_factor alpha epsilon i_episode i0 s0 st0
      = Inr (s1, False, st1)" and i1: "i1 = Suc i0"
    by (simp_all add: continues_def c)
  from Suc.IH [OF rest [unfolded c] Suc.prems(2) mf]
  have "episode_loop f env gen discount_factor alpha epsilon i_episode i1 s1 st1 = Some (Inl e)" .
  with step i1 show ?case by (simp add: fuel)
qed

lemma run_episodes_raises_after:
  assumes "run_episodes fuel env gen discount_factor alpha epsilon [0 ..< k]
             (initial_state env (nat num_episodes) e0 g0) = Some (Inr st)"
    and "k < nat num_episodes"
    and "episode fuel env gen discount_factor alpha epsilon k st = Some (Inl e)"
  shows "q_learning fuel env gen num_episodes discount_factor alpha epsilon e0 g0
           = Some (Inl e)"
proof -
  from assms(2) have "[0 ..< nat num_episodes] = [0 ..< k] @ k # [Suc k ..< nat num_episodes]"
    by (metis le_add1 less_imp_le_nat plus_nat.add_0 upt_add_eq_append upt_conv_Cons
        le_add_diff_inverse)
  then have "run_episodes fuel env gen discount_factor alpha epsilon [0 ..< nat num_episodes]
      (initial_state env (nat num_episodes) e0 g0) = Some (Inl e)"
    using assms(1,3) by (simp add: run_episodes_append)
  moreover from assms(2) have "\<not> num_episodes < 0" by simp
  ultimately show ?thesis by (simp add: q_learning_def q_learning_run_def)
qed

text \<open>
  C9. An exception \<open>x\<close> raised by the environment is the outcome of the whole run,
  unchanged, and no Q table or statistics are returned. After any number \<open>k\<close> of
  completed episodes: if \<^verbatim>\<open>reset\<close> raises \<open>x\<close>, the run raises \<open>x\<close>; and if \<^verbatim>\<open>reset\<close>
  succeeds and, after any number \<open>m\<close> of passes of the inner loop that neither raised nor
  ended the episode, \<^verbatim>\<open>step\<close> raises \<open>x\<close> on the sampled action, the run raises \<open>x\<close>
  (the episode being given fuel for more than \<open>m\<close> passes).
\<close>

theorem env_errors_propagate:
  "(run_episodes fuel (env :: ('e, 's, 'x) env) gen discount_factor alpha epsilon [0 ..< k]
        (initial_state env (nat num_episodes) e0 g0) = Some (Inr st)
      \<longrightarrow> k < nat num_episodes
      \<longrightarrow> env_reset env (env_state st) = Inl x
      \<longrightarrow> q_learning fuel env gen num_episodes discount_factor alpha epsilon e0 g0
            = Some (Inl (EnvError x)))
   \<and> (run_episodes fuel env gen discount_factor alpha epsilon [0 ..< k]
        (initial_state env (nat num_episodes) e0 g0) = Some (Inr st)
      \<longrightarrow> k < nat num_episodes
      \<longrightarrow> env_reset env (env_state st) = Inr (s0, e1)
      \<longrightarrow> (continues env gen discount_factor alpha epsilon k ^^ m)
            (0, s0, st\<lparr>env_state := e1\<rparr>) (i, s, st')
      \<longrightarrow> select_action gen epsilon (env_nA env) (Qtab st') s (rng_state st')
            = (Inr (a, Q1, g1) :: 'x error + nat \<times> 's defaultdict \<times> 'g)
      \<longrightarrow> env_step env (env_state st') a = Inl x
      \<longrightarrow> m < fuel
      \<longrightarrow> q_learning fuel env gen num_episodes discount_factor alpha epsilon e0 g0
            = Some (Inl (EnvError x)))"
proof (intro conjI impI)
  assume run: "run_episodes fuel env gen discount_factor alpha epsilon [0 ..< k]
        (initial_state env (nat num_episodes) e0 g0) = Some (Inr st)"
    and k: "k < nat num_episodes"
    and "env_reset env (env_state st) = Inl x"
  then have "episode fuel env gen discount_factor alpha epsilon k st = Some (Inl (EnvError x))"
    by (simp add: episode_def)
  from run_episodes_raises_after [OF run k this]
  show "q_learning fuel env gen num_episodes discount_factor alpha epsilon e0 g0
            = Some (Inl (EnvError x))" .
next
  assume run: "run_episodes fuel env gen discount_factor alpha epsilon [0 ..< k]
        (initial_state env (nat num_episodes) e0 g0) = Some (Inr st)"
    and k: "k < nat num_episodes"
    and reset: "env_reset env (env_state st) = Inr (s0, e1)"
    and passes: "(continues env gen discount_factor alpha epsilon k ^^ m)
            (0, s0, st\<lparr>env_state := e1\<rparr>) (i, s, st')"
    and sel: "select_action gen epsilon (env_nA env) (Qtab st') s (rng_state st')
            = (Inr (a, Q1, g1) :: 'x error + nat \<times> 's defaultdict \<times> 'g)"
    and raises: "env_step env (env_state st') a = Inl x"
    and fuel: "m < fuel"
  from sel raises have "q_step env gen discount_factor alpha epsilon k i s st'
      = Inl (EnvError x)"
    by (simp add: q_step_def)
  from episode_loop_raises_after [OF passes this fuel] reset
  have "episode fuel env gen discount_factor alpha epsilon k st = Some (Inl (EnvError x))"
    by (simp add: episode_def)
  from run_episodes_raises_after [OF run k this]
  show "q_learning fuel env gen num_episodes discount_factor alpha epsilon e0 g0
            = Some (Inl (EnvError x))" .
qed

theorem env_errors_propagate_witness:
  "run_episodes 1 env_reset_raises counter_gen 1 (1 / 2) (1 / 10) [0 ..< 0]
       (initial_state env_reset_raises (nat 1) () 0)
     = Some (Inr (initial_state env_reset_raises (nat 1) () 0))
   \<and> 0 < nat 1
   \<and> env_reset env_reset_raises (env_state (initial_state env_reset_raises (nat 1) () (0::nat)
         :: (nat, unit, nat) run_state)) = Inl ''reset failed''
   \<and> q_learning 1 env_reset_raises counter_gen 1 1 (1 / 2) (1 / 10) () 0
     = Some (Inl (EnvError ''reset failed''))
   \<and> run_episodes 1 env_step_raises counter_gen 1 (1 / 2) (1 / 10) [0 ..< 0]
       (initial_state env_step_raises (nat 1) () 0)
     = Some (Inr (initial_state env_step_raises (nat 1) () 0))
   \<and> env_reset env_step_raises (env_state (initial_state env_step_raises (nat 1) () (0::nat)
         :: (nat, unit, nat) run_state)) = Inr (0, ())
   \<and> (continues env_step_raises counter_gen 1 (1 / 2) (1 / 10) 0 ^^ 0)
        (0, 0, (initial_state env_step_raises (nat 1) () 0)\<lparr>env_state := ()\<rparr>)
        (0, 0, initial_state env_step_raises (nat 1) () 0)
   \<and> select_action counter_gen (1 / 10) (env_nA env_step_raises)
        (Qtab (initial_state env_step_raises (nat 1) () (0::nat) :: (nat, unit, nat) run_state)) 0
        (rng_state (initial_state env_step_raises (nat 1) () (0::nat) :: (nat, unit, nat) run_state))
     = (Inr (0, setitem (new_defaultdict 4) 0 [0, 0, 0, 0], 1)
        :: string error + nat \<times> nat defaultdict \<times> nat)
   \<and> env_step env_step_raises (env_state (initial_state env_step_raises (nat 1) () (0::nat)
         :: (nat, unit, nat) run_state)) 0 = Inl ''step failed''
   \<and> (0::nat) < 1
   \<and> q_learning 1 env_step_raises counter_gen 1 1 (1 / 2) (1 / 10) () 0
     = Some (Inl (EnvError ''step failed''))"
proof -
  have r1: "run_episodes 1 env_reset_raises counter_gen 1 (1 / 2) (1 / 10) [0 ..< 0]
       (initial_state env_reset_raises (nat 1) () (0::nat))
     = Some (Inr (initial_state env_reset_raises (nat 1) () 0))"
    by simp
  have k: "0 < nat 1" by simp
  have x1: "env_reset env_reset_raises (env_state (initial_state env_reset_raises (nat 1) ()
      (0::nat) :: (nat, unit, nat) run_state)) = Inl ''reset failed''"
    by (simp add: env_reset_raises_def)
  have r2: "run_episodes 1 env_step_raises counter_gen 1 (1 / 2) (1 / 10) [0 ..< 0]
       (initial_state env_step_raises (nat 1) () (0::nat))
     = Some (Inr (initial_state env_step_raises (nat 1) () 0))"
    by simp
  have x2: "env_reset env_step_raises (env_state (initial_state env_step_raises (nat 1) ()
      (0::nat) :: (nat, unit, nat) run_state)) = Inr (0, ())"
    by (simp add: env_step_raises_def)
  have p: "(continues env_step_raises counter_gen 1 (1 / 2) (1 / 10) 0 ^^ 0)
        (0, 0, (initial_state env_step_raises (nat 1) () (0::nat))\<lparr>env_state := ()\<rparr>)
        (0, 0, initial_state env_step_raises (nat 1) () 0)"
    by (simp add: initial_state_def)
  have sel: "select_action counter_gen (1 / 10) (env_nA env_step_raises)
        (Qtab (initial_state env_step_raises (nat 1) () (0::nat) :: (nat, unit, nat) run_state)) 0
        (rng_state (initial_state env_step_raises (nat 1) () (0::nat) :: (nat, unit, nat) run_state))
     = (Inr (0, setitem (new_defaultdict 4) 0 [0, 0, 0, 0], 1)
        :: string error + nat \<times> nat defaultdict \<times> nat)"
    by (simp add: run_defs env_step_raises_def replicate_4)
  have x3: "env_step env_step_raises (env_state (initial_state env_step_raises (nat 1) ()
      (0::nat) :: (nat, unit, nat) run_state)) 0 = Inl ''step failed''"
    by (simp add: env_step_raises_def)
  have f: "(0::nat) < 1" by simp
  from env_errors_propagate [THEN conjunct1, rule_format, OF r1 k x1]
  have a: "q_learning 1 env_reset_raises counter_gen 1 1 (1 / 2) (1 / 10) () (0::nat)
     = Some (Inl (EnvError ''reset failed''))" .
  from env_errors_propagate [THEN conjunct2, rule_format, OF r2 k x2 p sel x3 f]
  have b: "q_learning 1 env_step_raises counter_gen 1 1 (1 / 2) (1 / 10) () (0::nat)
     = Some (Inl (EnvError ''step failed''))" .
  from r1 k x1 a r2 x2 p sel x3 f b show ?thesis by blast
qed

section \<open>The claim about determinism\<close>

lemma q_step_sim:
  fixes env1 :: "('e1, 's, 'x) env" and env2 :: "('e2, 's, 'x) env"
    and st1 :: "('s, 'e1, 'g) run_state" and st2 :: "('s, 'e2, 'g) run_state"
  assumes sim: "env_sim R env1 env2" and st: "state_sim R st1 st2"
  shows "rel_sum (=) (\<lambda>r1 r2. fst r1 = fst r2 \<and> fst (snd r1) = fst (snd r2)
                          \<and> state_sim R (snd (snd r1)) (snd (snd r2)))
           (q_step env1 gen discount_factor alpha epsilon i_episode i s st1)
           (q_step env2 gen discount_factor alpha epsilon i_episode i s st2)"
proof -
  from sim have nA: "env_nA env1 = env_nA env2" by (simp add: env_sim_def)
  from st have eq: "Qtab st1 = Qtab st2" "stats st1 = stats st2" "rng_state st1 = rng_state st2"
    "history st1 = history st2" and R: "R (env_state st1) (env_state st2)"
    by (simp_all add: state_sim_def)
  show ?thesis
  proof (cases "select_action gen epsilon (env_nA env2) (Qtab st2) s (rng_state st2)
      :: 'x error + nat \<times> 's defaultdict \<times> 'g")
    case (Inl e)
    then show ?thesis by (simp add: q_step_def nA eq)
  next
    case (Inr sel)
    obtain a Q1 g1 where sel: "sel = (a, Q1, g1)" by (cases sel)
    from sim R have rel: "rel_sum (=) (rel_prod (=) R)
        (env_step env1 (env_state st1) a) (env_step env2 (env_state st2) a)"
      by (simp add: env_sim_def)
    show ?thesis
    proof (cases "env_step env1 (env_state st1) a")
      case (Inl x)
      with rel have "env_step env2 (env_state st2) a = Inl x"
        by (cases "env_step env2 (env_state st2) a") simp_all
      with Inl Inr sel show ?thesis by (simp add: q_step_def nA eq)
    next
      case r1: (Inr res1)
      with rel obtain res2 where r2: "env_step env2 (env_state st2) a = Inr res2"
        and rr: "rel_prod (=) R res1 res2"
        by (cases "env_step env2 (env_state st2) a") simp_all
      obtain ns r d e1' where res1: "res1 = ((ns, r, d), e1')" by (cases res1) auto
      with rr obtain e2' where res2: "res2 = ((ns, r, d), e2')" and R': "R e1' e2'"
        by (cases res2) auto
      show ?thesis
        using Inr sel r1 r2 res1 res2 R'
        by (simp add: q_step_def nA eq state_sim_def split: sum.splits prod.splits)
    qed
  qed
qed

lemma episode_loop_sim:
  fixes env1 :: "('e1, 's, 'x) env" and env2 :: "('e2, 's, 'x) env"
    and st1 :: "('s, 'e1, 'g) run_state" and st2 :: "('s, 'e2, 'g) run_state"
  assumes "env_sim R env1 env2" and "state_sim R st1 st2"
    and "episode_loop fuel1 env1 gen discount_factor alpha epsilon i_episode i s st1 = Some r1"
    and "episode_loop fuel2 env2 gen discount_factor alpha epsilon i_episode i s st2 = Some r2"
  shows "rel_sum (=) (state_sim R) r1 r2"
  using assms(2-)
proof (induction fuel1 arbitrary: fuel2 i s st1 st2)
  case 0
  then show ?case by simp
next
  case (Suc fuel1)
  from Suc.prems(3) obtain f2 where f2: "fuel2 = Suc f2" by (cases fuel2) auto
  note step = q_step_sim [OF assms(1) Suc.prems(1),
      of gen discount_factor alpha epsilon i_episode i s]
  show ?case
  proof (cases "q_step env1 gen discount_factor alpha epsilon i_episode i s st1")
    case (Inl e)
    with step have "q_step env2 gen discount_factor alpha epsilon i_episode i s st2 = Inl e"
      by (cases "q_step env2 gen discount_factor alpha epsilon i_episode i s st2") simp_all
    with Inl Suc.prems(2,3) show ?thesis by (auto simp: f2)
  next
    case (Inr res1)
    with step obtain res2
      where r2: "q_step env2 gen discount_factor alpha epsilon i_episode i s st2 = Inr res2"
        and rel: "fst res1 = fst res2" "fst (snd res1) = fst (snd res2)"
          "state_sim R (snd (snd res1)) (snd (snd res2))"
      by (cases "q_step env2 gen discount_factor alpha epsilon i_episode i s st2") simp_all
    obtain ns d t1 where res1: "res1 = (ns, d, t1)" by (cases res1)
    with rel obtain t2 where res2: "res2 = (ns, d, t2)" and t: "state_sim R t1 t2"
      by (cases res2) auto
    show ?thesis
    proof (cases d)
      case True
      with Inr r2 res1 res2 Suc.prems(2,3) t show ?thesis by (auto simp: f2)
    next
      case False
      with Inr res1 Suc.prems(2)
      have l1: "episode_loop fuel1 env1 gen discount_factor alpha epsilon i_episode (Suc i) ns t1
          = Some r1"
        by simp
      from False r2 res2 Suc.prems(3)
      have l2: "episode_loop f2 env2 gen discount_factor alpha epsilon i_episode (Suc i) ns t2
          = Some r2"
        by (simp add: f2)
      from Suc.IH [OF t l1 l2] show ?thesis .
    qed
  qed
qed

lemma episode_sim:
  fixes env1 :: "('e1, 's, 'x) env" and env2 :: "('e2, 's, 'x) env"
    and st1 :: "('s, 'e1, 'g) run_state" and st2 :: "('s, 'e2, 'g) run_state"
  assumes "env_sim R env1 env2" and "state_sim R st1 st2"
    and "episode fuel1 env1 gen discount_factor alpha epsilon i_episode st1 = Some r1"
    and "episode fuel2 env2 gen discount_factor alpha epsilon i_episode st2 = Some r2"
  shows "rel_sum (=) (state_sim R) r1 r2"
proof -
  from assms(1,2) have rel: "rel_sum (=) (rel_prod (=) R)
      (env_reset env1 (env_state st1)) (env_reset env2 (env_state st2))"
    by (simp add: env_sim_def state_sim_def)
  show ?thesis
  proof (cases "env_reset env1 (env_state st1)")
    case (Inl x)
    with rel have "env_reset env2 (env_state st2) = Inl x"
      by (cases "env_reset env2 (env_state st2)") simp_all
    with Inl assms(3,4) show ?thesis by (auto simp: episode_def)
  next
    case (Inr res1)
    with rel obtain res2 where r2: "env_reset env2 (env_state st2) = Inr res2"
      and rr: "rel_prod (=) R res1 res2"
      by (cases "env_reset env2 (env_state st2)") simp_all
    obtain s e1' where res1: "res1 = (s, e1')" by (cases res1)
    with rr obtain e2' where res2: "res2 = (s, e2')" and R': "R e1' e2'"
      by (cases res2) auto
    from assms(2) R' have t: "state_sim R (st1\<lparr>env_state := e1'\<rparr>) (st2\<lparr>env_state := e2'\<rparr>)"
      by (simp add: state_sim_def)
    from assms(3) Inr res1
    have l1: "episode_loop fuel1 env1 gen discount_factor alpha epsilon i_episode 0 s
        (st1\<lparr>env_state := e1'\<rparr>) = Some r1"
      by (simp add: episode_def)
    from assms(4) r2 res2
    have l2: "episode_loop fuel2 env2 gen discount_factor alpha epsilon i_episode 0 s
        (st2\<lparr>env_state := e2'\<rparr>) = Some r2"
      by (simp add: episode_def)
    from episode_loop_sim [OF assms(1) t l1 l2] show ?thesis .
  qed
qed

lemma run_episodes_sim:
  fixes env1 :: "('e1, 's, 'x) env" and env2 :: "('e2, 's, 'x) env"
    and st1 :: "('s, 'e1, 'g) run_state" and st2 :: "('s, 'e2, 'g) run_state"
  assumes "env_sim R env1 env2" and "state_sim R st1 st2"
    and "run_episodes fuel1 env1 gen discount_factor alpha epsilon ies st1 = Some r1"
    and "run_episodes fuel2 env2 gen discount_factor alpha epsilon ies st2 = Some r2"
  shows "rel_sum (=) (state_sim R) r1 r2"
  using assms(2-)
proof (induction ies arbitrary: st1 st2)
  case Nil
  then show ?case by auto
next
  case (Cons i_episode rest)
  from Cons.prems(2) obtain o1
    where e1: "episode fuel1 env1 gen discount_factor alpha epsilon i_episode st1 = Some o1"
    by (auto split: option.splits)
  from Cons.prems(3) obtain o2
    where e2: "episode fuel2 env2 gen discount_factor alpha epsilon i_episode st2 = Some o2"
    by (auto split: option.splits)
  from episode_sim [OF assms(1) Cons.prems(1) e1 e2]
  have rel: "rel_sum (=) (state_sim R) o1 o2" .
  show ?case
  proof (cases o1)
    case (Inl e)
    with rel have "o2 = Inl e" by (cases o2) simp_all
    with Inl e1 e2 Cons.prems(2,3) show ?thesis by auto
  next
    case (Inr t1)
    with rel obtain t2 where o2: "o2 = Inr t2" and t: "state_sim R t1 t2"
      by (cases o2) simp_all
    from Cons.prems(2) e1 Inr
    have l1: "run_episodes fuel1 env1 gen discount_factor alpha epsilon rest t1 = Some r1"
      by simp
    from Cons.prems(3) e2 o2
    have l2: "run_episodes fuel2 env2 gen discount_factor alpha epsilon rest t2 = Some r2"
      by simp
    from Cons.IH [OF t l1 l2] show ?thesis .
  qed
qed

text \<open>
  C8. The outcome of a run is determined by the parameters, the seed and the behaviour
  of the environment. Two runs with the same parameters, started from the same seed \<open>g0\<close>
  against environments that behave alike from their initial internal states (in
  particular one deterministic environment, started twice from the same state), return
  the same Q table and the same statistics, or raise the same exception. The fuel given
  to the two runs plays no part, as long as both runs finish. (The arrays are real
  numbers in this model; the same values stand for the same bits.)
\<close>

theorem q_learning_deterministic:
  fixes env1 :: "('e1, 's, 'x) env" and env2 :: "('e2, 's, 'x) env"
    and g0 :: 'g
  assumes "env_sim R env1 env2" and "R e1 e2"
    and "q_learning fuel1 env1 gen num_episodes discount_factor alpha epsilon e1 g0 = Some r1"
    and "q_learning fuel2 env2 gen num_episodes discount_factor alpha epsilon e2 g0 = Some r2"
  shows "r1 = r2"
proof (cases "num_episodes < 0")
  case True
  with assms(3,4) show ?thesis by (auto simp: q_learning_def q_learning_run_def)
next
  case False
  let ?n = "nat num_episodes"
  from assms(3) False obtain o1
    where run1: "run_episodes fuel1 env1 gen discount_factor alpha epsilon [0 ..< ?n]
        (initial_state env1 ?n e1 g0) = Some o1"
      and r1: "r1 = map_sum id (\<lambda>st. (Qtab st, stats st)) o1"
    by (auto simp: q_learning_def q_learning_run_def)
  from assms(4) False obtain o2
    where run2: "run_episodes fuel2 env2 gen discount_factor alpha epsilon [0 ..< ?n]
        (initial_state env2 ?n e2 g0) = Some o2"
      and r2: "r2 = map_sum id (\<lambda>st. (Qtab st, stats st)) o2"
    by (auto simp: q_learning_def q_learning_run_def)
  from assms(1,2) have "state_sim R (initial_state env1 ?n e1 g0) (initial_state env2 ?n e2 g0)"
    by (simp add: state_sim_def initial_state_def env_sim_def)
  from run_episodes_sim [OF assms(1) this run1 run2]
  have "rel_sum (=) (state_sim R) o1 o2" .
  then show ?thesis
    unfolding r1 r2 by (cases o1; cases o2) (simp_all add: state_sim_def)
qed

theorem q_learning_deterministic_witness:
  "env_sim (\<lambda>e1 e2. True) (env_once 1) (env_once_counting 1)
   \<and> q_learning 1 (env_once 1) counter_gen 2 1 (1 / 2) (1 / 10) () 0
       = q_learning (Suc 1) (env_once_counting 1) counter_gen 2 1 (1 / 2) (1 / 10) 0 0
   \<and> map_option (map_sum id snd)
        (q_learning 1 (env_once 1) counter_gen 2 1 (1 / 2) (1 / 10) () 0)
       = Some (Inr \<lparr>episode_lengths = [0, 0], episode_rewards = [1, 1]\<rparr>)"
proof -
  have sim: "env_sim (\<lambda>e1 e2. True) (env_once 1) (env_once_counting 1)"
    by (simp add: env_sim_def env_once_def env_once_counting_def)
  have "\<exists>r1. q_learning 1 (env_once 1) counter_gen 2 1 (1 / 2) (1 / 10) () 0 = Some r1
      \<and> map_sum id snd r1 = Inr \<lparr>episode_lengths = [0, 0], episode_rewards = [1, 1]\<rparr>"
    by (simp add: run_defs replicate_4 replicate_2 upt_2)
  then obtain r1
    where run1: "q_learning 1 (env_once 1) counter_gen 2 1 (1 / 2) (1 / 10) () 0 = Some r1"
      and out: "map_sum id snd r1 = Inr \<lparr>episode_lengths = [0, 0], episode_rewards = [1, 1]\<rparr>"
    by blast
  have "\<exists>r2. q_learning (Suc 1) (env_once_counting 1) counter_gen 2 1 (1 / 2) (1 / 10) 0 0 = Some r2"
    by (simp add: run_defs env_once_counting_def replicate_4 replicate_2 upt_2)
  then obtain r2
    where run2: "q_learning (Suc 1) (env_once_counting 1) counter_gen 2 1 (1 / 2) (1 / 10) 0 0 = Some r2"
    by blast
  from q_learning_deterministic [OF sim TrueI run1 run2] have "r1 = r2" .
  with sim run1 run2 out show ?thesis by simp
qed

end
